theory Spec2Isabelle
  imports Main
begin

section \<open>The suspend checker: data and environment\<close>

text \<open>
  The program is \<^verbatim>\<open>flux-suspend-checker.py\<close>: a Prometheus collector whose \<^verbatim>\<open>collect\<close>
  walks every listable resource kind of a cluster, removes the suspension annotations of
  resources whose suspension has timed out, and reports the resources that stay suspended
  in three gauges.
\<close>

subsection \<open>Constants\<close>

definition RECONCILE_ANNOTATION :: string where
  "RECONCILE_ANNOTATION = ''kustomize.toolkit.fluxcd.io/reconcile''"

definition SUSPEND_UNTIL_ANNOTATION :: string where
  "SUSPEND_UNTIL_ANNOTATION = ''flux.b2.genesiscloud.dev/suspend-until''"

definition SUSPENDED_BY_ANNOTATION :: string where
  "SUSPENDED_BY_ANNOTATION = ''flux.b2.genesiscloud.dev/suspended-by''"

subsection \<open>Exceptions\<close>

text \<open>
  The exceptions that can leave a function of the program. \<open>ParserError\<close> is the class
  named by the one \<^verbatim>\<open>except\<close> clause of the source
  (\<^verbatim>\<open>dateutil.parser.ParserError\<close>, a subclass of \<^verbatim>\<open>ValueError\<close>); a plain
  \<open>ValueError\<close> is not an instance of it. \<open>ApiException\<close> stands for whatever the
  client library raises by itself.
\<close>

datatype py_error =
    AssertionError
  | KeyError string
  | ParserError
  | ValueError
  | TypeError
  | ApiException

subsection \<open>Cluster objects\<close>

text \<open>One entry of the \<^verbatim>\<open>resources\<close> array of a discovery response.\<close>

record resource_kind =
  rk_name :: string
  rk_kind :: string
  rk_verbs :: "string list"
  rk_namespaced :: bool

text \<open>
  The \<^verbatim>\<open>metadata\<close> object of a listed resource, the only part of a resource the
  program reads. \<open>meta_namespace\<close> and \<open>meta_annotations\<close> may be absent from the JSON.
\<close>

record meta =
  meta_namespace :: "string option"
  meta_name :: string
  meta_annotations :: "(string \<rightharpoonup> string) option"

text \<open>One group of \<^verbatim>\<open>get_api_versions().groups\<close>.\<close>

record api_group =
  api_name :: string
  api_preferred_version :: string

subsection \<open>Timestamps\<close>

text \<open>
  A \<^verbatim>\<open>datetime\<close> is either naive (no time zone) or aware; the integer is the instant.
  \<^verbatim>\<open>datetime.now()\<close> is naive. Python orders two naive or two aware values and raises
  \<^verbatim>\<open>TypeError\<close> when asked to order a naive and an aware one.
\<close>

datatype datetime = Naive int | Aware int

fun dt_less :: "datetime \<Rightarrow> datetime \<Rightarrow> py_error + bool" where
  "dt_less (Naive a) (Naive b) = Inr (a < b)"
| "dt_less (Aware a) (Aware b) = Inr (a < b)"
| "dt_less (Naive a) (Aware b) = Inl TypeError"
| "dt_less (Aware a) (Naive b) = Inl TypeError"

subsection \<open>JSON Patch\<close>

record patch_op =
  op :: string
  path :: string

subsection \<open>The environment\<close>

text \<open>
  Everything the program calls and does not define: the API server behind
  \<^verbatim>\<open>call_api\<close> and \<^verbatim>\<open>ApisApi\<close>, the timestamp parser and the clock. A call of the
  client either raises or returns a status with the decoded body. \<open>now k\<close> is the value of
  the reading number \<open>k\<close> of \<^verbatim>\<open>datetime.now()\<close>, counted from the start of the run.
\<close>

record env =
  get_api_versions :: "py_error + api_group list"
  api_get_kinds :: "string \<Rightarrow> py_error + int \<times> resource_kind list"
  api_get_items :: "string \<Rightarrow> py_error + int \<times> meta list"
  api_patch :: "string \<Rightarrow> patch_op list \<Rightarrow> py_error + int"
  isoparse :: "string \<Rightarrow> py_error + datetime"
  now :: "nat \<Rightarrow> int"

subsection \<open>Effects\<close>

text \<open>
  What a run does to the outside, in order: the API calls with the answer each one got,
  and the log records.
\<close>

datatype level = Debug | Info | Error

datatype event =
    GetGroups
  | GetKinds string "py_error + int"
  | GetItems string "py_error + int"
  | Patch string "patch_op list" "py_error + int"
  | Log level string

text \<open>
  One element yielded by \<^verbatim>\<open>checkAllResources\<close>: the label values, \<^verbatim>\<open>hasTimeout\<close>
  and \<^verbatim>\<open>hasOwner\<close>.
\<close>

type_synonym entry = "string list \<times> bool \<times> bool"

text \<open>
  The result of running a piece of the program from a given number of clock readings: the
  number of readings afterwards, the effects in order, the elements yielded, and the
  exception that ended it, if one did.
\<close>

record run =
  clock_reads :: nat
  effects :: "event list"
  yielded :: "entry list"
  raised :: "py_error option"

section \<open>The program\<close>

subsection \<open>String helpers\<close>

text \<open>\<^verbatim>\<open>s.replace(c, new)\<close> for a pattern \<open>c\<close> of one character.\<close>

fun replace_char :: "char \<Rightarrow> string \<Rightarrow> string \<Rightarrow> string" where
  "replace_char c new [] = []"
| "replace_char c new (x # xs) =
     (if x = c then new @ replace_char c new xs else x # replace_char c new xs)"

text \<open>\<^verbatim>\<open>s.replace(ab, new)\<close> for a pattern of the two characters \<open>a\<close>, \<open>b\<close>:
  the occurrences are taken from the left and do not overlap.\<close>

fun replace_pair :: "char \<Rightarrow> char \<Rightarrow> string \<Rightarrow> string \<Rightarrow> string" where
  "replace_pair a b new (x # y # xs) =
     (if x = a \<and> y = b then new @ replace_pair a b new xs
      else x # replace_pair a b new (y # xs))"
| "replace_pair a b new [x] = [x]"
| "replace_pair a b new [] = []"

subsection \<open>removeResourceAnnotation\<close>

text \<open>The two \<^verbatim>\<open>replace\<close> calls of the loop that builds the patch, in their order.\<close>

definition escape :: "string \<Rightarrow> string" where
  "escape annotation =
     replace_char (CHR ''/'') ''~1'' (replace_char (CHR ''~'') ''~0'' annotation)"

text \<open>
  The decoding of a reference token of a JSON pointer, written from the escaping rule of
  the patch format: \<^verbatim>\<open>~1\<close> becomes \<^verbatim>\<open>/\<close> first, then \<^verbatim>\<open>~0\<close> becomes \<^verbatim>\<open>~\<close>.
  It is not part of the program; the server applies it to the paths it receives.
\<close>

definition unescape :: "string \<Rightarrow> string" where
  "unescape token =
     replace_pair (CHR ''~'') (CHR ''0'') ''~''
       (replace_pair (CHR ''~'') (CHR ''1'') ''/'' token)"

definition patch_endpoint :: "string \<Rightarrow> string \<Rightarrow> string \<Rightarrow> string \<Rightarrow> string \<Rightarrow> string" where
  "patch_endpoint grp version plural namespace name =
     (if grp \<noteq> [] then ''/apis/'' @ grp @ ''/'' @ version else ''/api/'' @ version)
     @ (if namespace \<noteq> [] then ''/namespaces/'' @ namespace else [])
     @ ''/'' @ plural @ ''/'' @ name"

definition patch_body :: "string list \<Rightarrow> patch_op list" where
  "patch_body annotations =
     map (\<lambda>annotation. \<lparr>op = ''remove'', path = ''/metadata/annotations/'' @ escape annotation\<rparr>)
       annotations"

text \<open>
  The call and the \<^verbatim>\<open>assert status == 200\<close> after it. The result is the event of the
  call and the exception raised, if any.
\<close>

definition removeResourceAnnotation ::
  "env \<Rightarrow> string \<Rightarrow> string \<Rightarrow> string \<Rightarrow> string \<Rightarrow> string \<Rightarrow> string list
     \<Rightarrow> event list \<times> py_error option" where
  "removeResourceAnnotation e grp version plural namespace name annotations =
     (let endpoint = patch_endpoint grp version plural namespace name;
          body = patch_body annotations;
          answer = api_patch e endpoint body
      in ([Patch endpoint body answer],
          case answer of
            Inl err \<Rightarrow> Some err
          | Inr status \<Rightarrow> if status = 200 then None else Some AssertionError))"

subsection \<open>Sequencing\<close>

text \<open>
  A piece of program that does nothing, and one piece after another: the second starts
  from the clock readings the first one ended with, and does not start when the first one
  raised.
\<close>

definition skip :: "nat \<Rightarrow> run" where
  "skip k = \<lparr>clock_reads = k, effects = [], yielded = [], raised = None\<rparr>"

definition then_run :: "run \<Rightarrow> (nat \<Rightarrow> run) \<Rightarrow> run" where
  "then_run a f =
     (case raised a of
        Some err \<Rightarrow> a
      | None \<Rightarrow>
          (let b = f (clock_reads a)
           in \<lparr>clock_reads = clock_reads b, effects = effects a @ effects b,
               yielded = yielded a @ yielded b, raised = raised b\<rparr>))"

text \<open>A \<^verbatim>\<open>for\<close> loop over a list that is already in memory.\<close>

primrec for_each :: "('a \<Rightarrow> nat \<Rightarrow> run) \<Rightarrow> 'a list \<Rightarrow> nat \<Rightarrow> run" where
  "for_each body [] = skip"
| "for_each body (x # xs) = (\<lambda>k. then_run (body x k) (for_each body xs))"

subsection \<open>getAllAPIs, getAllResourceKindsInAPI, getAllResourcesInAPI\<close>

text \<open>
  \<^verbatim>\<open>getAllAPIs\<close> yields the core pair before it calls the server; the call happens when
  the consumer asks for the second element. The model gives the first element, and what
  asking for the rest does: the event of the call, and the exception or the remaining
  elements.
\<close>

definition getAllAPIs ::
  "env \<Rightarrow> (string \<times> string) \<times> event list \<times> (py_error + (string \<times> string) list)" where
  "getAllAPIs e =
     (([], ''v1''),
      [GetGroups],
      (case get_api_versions e of
         Inl err \<Rightarrow> Inl err
       | Inr groups \<Rightarrow> Inr (map (\<lambda>api. (api_name api, api_preferred_version api)) groups)))"

definition kinds_endpoint :: "string \<Rightarrow> string \<Rightarrow> string" where
  "kinds_endpoint grp version =
     (if grp \<noteq> [] then ''/apis/'' @ grp @ ''/'' @ version else ''/api/'' @ version)"

definition items_endpoint :: "string \<Rightarrow> string \<Rightarrow> string \<Rightarrow> string" where
  "items_endpoint grp version plural =
     (if grp \<noteq> [] then ''/apis/'' @ grp @ ''/'' @ version @ ''/'' @ plural
      else ''/api/'' @ version @ ''/'' @ plural)"

text \<open>
  Both functions call the server when their first element is asked for, check the status,
  and then yield from a list that is in memory: the event of the call, and the exception
  or the elements.
\<close>

definition getAllResourceKindsInAPI ::
  "env \<Rightarrow> string \<Rightarrow> string
     \<Rightarrow> event list \<times> (py_error + (string \<times> string \<times> string list \<times> bool) list)" where
  "getAllResourceKindsInAPI e grp version =
     (let endpoint = kinds_endpoint grp version
      in case api_get_kinds e endpoint of
           Inl err \<Rightarrow> ([GetKinds endpoint (Inl err)], Inl err)
         | Inr (status, resources) \<Rightarrow>
             ([GetKinds endpoint (Inr status)],
              if status = 200
              then Inr (map (\<lambda>resource. (rk_name resource, rk_kind resource,
                                          rk_verbs resource, rk_namespaced resource)) resources)
              else Inl AssertionError))"

definition getAllResourcesInAPI ::
  "env \<Rightarrow> string \<Rightarrow> string \<Rightarrow> string \<Rightarrow> event list \<times> (py_error + meta list)" where
  "getAllResourcesInAPI e grp version plural =
     (let endpoint = items_endpoint grp version plural
      in case api_get_items e endpoint of
           Inl err \<Rightarrow> ([GetItems endpoint (Inl err)], Inl err)
         | Inr (status, items) \<Rightarrow>
             ([GetItems endpoint (Inr status)],
              if status = 200 then Inr items else Inl AssertionError))"

subsection \<open>checkAllResources\<close>

definition resourceName :: "string \<Rightarrow> string \<Rightarrow> string \<Rightarrow> string \<Rightarrow> string" where
  "resourceName grp version namespace name =
     grp @ ''/'' @ version @ '' ''
     @ (if namespace \<noteq> [] then namespace @ ''/'' @ name else name)"

text \<open>\<^verbatim>\<open>meta.get('annotations', {})\<close>.\<close>

definition get_annotations :: "meta \<Rightarrow> (string \<rightharpoonup> string)" where
  "get_annotations m = (case meta_annotations m of None \<Rightarrow> Map.empty | Some a \<Rightarrow> a)"

text \<open>
  \<^verbatim>\<open>meta['namespace'] if namespaced else ''\<close>: the subscript raises \<^verbatim>\<open>KeyError\<close> when
  the key is absent.
\<close>

definition get_namespace :: "bool \<Rightarrow> meta \<Rightarrow> py_error + string" where
  "get_namespace namespaced m =
     (if namespaced
      then (case meta_namespace m of
              None \<Rightarrow> Inl (KeyError ''namespace'')
            | Some ns \<Rightarrow> Inr ns)
      else Inr [])"

text \<open>
  The list \<^verbatim>\<open>removeAnnotations\<close> built for a suspension that has timed out: the two
  keys, and the suspended-by key appended when \<^verbatim>\<open>hasOwner\<close> holds.
\<close>

definition removeAnnotations :: "bool \<Rightarrow> string list" where
  "removeAnnotations hasOwner =
     [RECONCILE_ANNOTATION, SUSPEND_UNTIL_ANNOTATION]
     @ (if hasOwner then [SUSPENDED_BY_ANNOTATION] else [])"

text \<open>
  The body of the loop of \<^verbatim>\<open>checkAllResources\<close>, for one tuple
  \<^verbatim>\<open>(group, version, plural, kind, namespaced, resource)\<close>, started at \<open>k\<close> clock
  readings. The \<^verbatim>\<open>try\<close> block evaluates \<^verbatim>\<open>isoparse(timeout)\<close>, then
  \<^verbatim>\<open>datetime.now()\<close>, then the comparison; its \<^verbatim>\<open>except\<close> clause catches
  \<open>ParserError\<close> and nothing else.
\<close>

definition check_resource ::
  "env \<Rightarrow> string \<Rightarrow> string \<Rightarrow> string \<Rightarrow> string \<Rightarrow> bool \<Rightarrow> meta \<Rightarrow> nat \<Rightarrow> run" where
  "check_resource e grp version plural kind namespaced m k =
     (let annotations = get_annotations m
      in case get_namespace namespaced m of
           Inl err \<Rightarrow> \<lparr>clock_reads = k, effects = [], yielded = [], raised = Some err\<rparr>
         | Inr namespace \<Rightarrow>
            (let name = meta_name m;
                 rname = resourceName grp version namespace name
             in if annotations RECONCILE_ANNOTATION \<noteq> Some ''disabled'' then skip k
                else
                 (let suspended = Log Debug (''Resource '' @ rname @ '' is suspended'');
                      hasOwner = (annotations SUSPENDED_BY_ANNOTATION \<noteq> None);
                      labels = [grp @ ''/'' @ version, kind, namespace, name]
                  in case annotations SUSPEND_UNTIL_ANNOTATION of
                       None \<Rightarrow>
                         \<lparr>clock_reads = k, effects = [suspended],
                          yielded = [(labels, False, hasOwner)], raised = None\<rparr>
                     | Some timeout \<Rightarrow>
                        (case isoparse e timeout of
                           Inl err \<Rightarrow>
                             if err = ParserError
                             then \<lparr>clock_reads = k,
                                   effects = [suspended,
                                     Log Error (''Failed to parse timestamp '' @ timeout
                                                @ '' on '' @ rname)],
                                   yielded = [(labels, False, hasOwner)], raised = None\<rparr>
                             else \<lparr>clock_reads = k, effects = [suspended], yielded = [],
                                   raised = Some err\<rparr>
                         | Inr parsed \<Rightarrow>
                            (case dt_less parsed (Naive (now e k)) of
                               Inl err \<Rightarrow>
                                 \<lparr>clock_reads = Suc k, effects = [suspended], yielded = [],
                                  raised = Some err\<rparr>
                             | Inr timedOut \<Rightarrow>
                                 if timedOut
                                 then
                                  (let removal = removeResourceAnnotation e grp version plural
                                                   namespace name (removeAnnotations hasOwner)
                                   in \<lparr>clock_reads = Suc k,
                                       effects = [suspended,
                                         Log Info (''Removing suspend annotations from ''
                                                   @ rname)] @ fst removal,
                                       yielded = [], raised = snd removal\<rparr>)
                                 else \<lparr>clock_reads = Suc k, effects = [suspended],
                                       yielded = [(labels, True, hasOwner)],
                                       raised = None\<rparr>)))))"

text \<open>
  \<^verbatim>\<open>checkAllResources\<close> consumes \<^verbatim>\<open>getAllResources\<close>, which consumes the three
  generators above, all lazily: the calls to the server and the loop body interleave as
  three nested loops. \<open>check_kind\<close> is one round of the loop over the kinds of an API
  (with the \<^verbatim>\<open>list\<close> test of \<^verbatim>\<open>getAllResources\<close>), \<open>check_api\<close> one round of the
  loop over the APIs.
\<close>

definition check_kind ::
  "env \<Rightarrow> string \<Rightarrow> string \<Rightarrow> string \<times> string \<times> string list \<times> bool \<Rightarrow> nat \<Rightarrow> run" where
  "check_kind e grp version t k =
     (case t of (plural, kind, verbs, namespaced) \<Rightarrow>
        if verbs = [] \<or> ''list'' \<notin> set verbs then skip k
        else
          (case getAllResourcesInAPI e grp version plural of
             (evs, Inl err) \<Rightarrow>
               \<lparr>clock_reads = k, effects = evs, yielded = [], raised = Some err\<rparr>
           | (evs, Inr items) \<Rightarrow>
               then_run \<lparr>clock_reads = k, effects = evs, yielded = [], raised = None\<rparr>
                 (for_each (check_resource e grp version plural kind namespaced) items)))"

definition check_api :: "env \<Rightarrow> string \<times> string \<Rightarrow> nat \<Rightarrow> run" where
  "check_api e gv k =
     (case gv of (grp, version) \<Rightarrow>
        (case getAllResourceKindsInAPI e grp version of
           (evs, Inl err) \<Rightarrow>
             \<lparr>clock_reads = k, effects = evs, yielded = [], raised = Some err\<rparr>
         | (evs, Inr kinds) \<Rightarrow>
             then_run \<lparr>clock_reads = k, effects = evs, yielded = [], raised = None\<rparr>
               (for_each (check_kind e grp version) kinds)))"

definition checkAllResources :: "env \<Rightarrow> nat \<Rightarrow> run" where
  "checkAllResources e k =
     (case getAllAPIs e of (core, evs, rest) \<Rightarrow>
        then_run (check_api e core k)
          (\<lambda>k'. case rest of
                  Inl err \<Rightarrow>
                    \<lparr>clock_reads = k', effects = evs, yielded = [], raised = Some err\<rparr>
                | Inr apis \<Rightarrow>
                    then_run \<lparr>clock_reads = k', effects = evs, yielded = [], raised = None\<rparr>
                      (for_each (check_api e) apis)))"

subsection \<open>FluxSuspendedCollector\<close>

record gauge =
  gauge_name :: string
  gauge_documentation :: string
  gauge_labels :: "string list"
  gauge_samples :: "(string list \<times> int) list"

definition LABELS :: "string list" where
  "LABELS = [''apiVersion'', ''kind'', ''namespace'', ''name'']"

definition getGauges :: "gauge \<times> gauge \<times> gauge" where
  "getGauges =
     (\<lparr>gauge_name = ''flux_suspended_resources'',
       gauge_documentation = ''Resources that are suspended from Flux reconciliation'',
       gauge_labels = LABELS, gauge_samples = []\<rparr>,
      \<lparr>gauge_name = ''flux_suspended_resources_unowned'',
       gauge_documentation = ''Suspended resources that don't have an owner annotation'',
       gauge_labels = LABELS, gauge_samples = []\<rparr>,
      \<lparr>gauge_name = ''flux_suspended_resources_indefinite'',
       gauge_documentation = ''Suspended resources that don't have a timeout'',
       gauge_labels = LABELS, gauge_samples = []\<rparr>)"

definition add_metric :: "gauge \<Rightarrow> string list \<Rightarrow> int \<Rightarrow> gauge" where
  "add_metric g labels v = g\<lparr>gauge_samples := gauge_samples g @ [(labels, v)]\<rparr>"

text \<open>The loop of \<^verbatim>\<open>collect\<close> over the elements \<^verbatim>\<open>checkAllResources\<close> yielded.\<close>

fun add_metrics :: "gauge \<times> gauge \<times> gauge \<Rightarrow> entry list \<Rightarrow> gauge \<times> gauge \<times> gauge" where
  "add_metrics gs [] = gs"
| "add_metrics (gAll, gUnowned, gIndefinite) ((labels, hasTimeout, hasOwner) # rest) =
     add_metrics
       (add_metric gAll labels 1,
        add_metric gUnowned labels (if hasOwner then 0 else 1),
        add_metric gIndefinite labels (if hasTimeout then 0 else 1))
       rest"

text \<open>
  \<^verbatim>\<open>collect\<close> yields its three gauges after the loop; an exception inside the loop
  leaves \<^verbatim>\<open>collect\<close> before any gauge is yielded. The effects of a collection are those
  of \<open>checkAllResources\<close>.
\<close>

definition collect :: "env \<Rightarrow> nat \<Rightarrow> py_error + gauge \<times> gauge \<times> gauge" where
  "collect e k =
     (let r = checkAllResources e k
      in case raised r of
           Some err \<Rightarrow> Inl err
         | None \<Rightarrow> Inr (add_metrics getGauges (yielded r)))"

subsection \<open>getAllResources\<close>

text \<open>
  The tuples \<^verbatim>\<open>getAllResources\<close> yields when no call fails, as a list: for each API
  (the core pair first), for each of its kinds that can be listed, each listed resource.
  A call that fails contributes nothing here; in the program it ends the run.
\<close>

definition listed_apis :: "env \<Rightarrow> (string \<times> string) list" where
  "listed_apis e =
     (case getAllAPIs e of
        (core, evs, rest) \<Rightarrow> core # (case rest of Inl err \<Rightarrow> [] | Inr apis \<Rightarrow> apis))"

definition listed_kinds ::
  "env \<Rightarrow> string \<Rightarrow> string \<Rightarrow> (string \<times> string \<times> string list \<times> bool) list" where
  "listed_kinds e grp version =
     (case snd (getAllResourceKindsInAPI e grp version) of
        Inl err \<Rightarrow> []
      | Inr kinds \<Rightarrow> kinds)"

definition listed_items :: "env \<Rightarrow> string \<Rightarrow> string \<Rightarrow> string \<Rightarrow> meta list" where
  "listed_items e grp version plural =
     (case snd (getAllResourcesInAPI e grp version plural) of
        Inl err \<Rightarrow> []
      | Inr items \<Rightarrow> items)"

definition kind_resources ::
  "env \<Rightarrow> string \<Rightarrow> string \<Rightarrow> string \<times> string \<times> string list \<times> bool
     \<Rightarrow> (string \<times> string \<times> string \<times> string \<times> bool \<times> meta) list" where
  "kind_resources e grp version t =
     (case t of (plural, kind, verbs, namespaced) \<Rightarrow>
        if verbs = [] \<or> ''list'' \<notin> set verbs then []
        else map (\<lambda>resource. (grp, version, plural, kind, namespaced, resource))
               (listed_items e grp version plural))"

definition api_resources ::
  "env \<Rightarrow> string \<times> string \<Rightarrow> (string \<times> string \<times> string \<times> string \<times> bool \<times> meta) list" where
  "api_resources e gv =
     (case gv of (grp, version) \<Rightarrow>
        concat (map (kind_resources e grp version) (listed_kinds e grp version)))"

definition getAllResources ::
  "env \<Rightarrow> (string \<times> string \<times> string \<times> string \<times> bool \<times> meta) list" where
  "getAllResources e = concat (map (api_resources e) (listed_apis e))"

text \<open>The events that are \<^verbatim>\<open>GET\<close> calls; the other events come from the loop body.\<close>

fun is_get :: "event \<Rightarrow> bool" where
  "is_get GetGroups = True"
| "is_get (GetKinds endpoint answer) = True"
| "is_get (GetItems endpoint answer) = True"
| "is_get (Patch endpoint body answer) = False"
| "is_get (Log lvl msg) = False"

text \<open>
  The exception a call to the server ends with, read off its event: the one the client
  raised, or \<^verbatim>\<open>AssertionError\<close> from \<^verbatim>\<open>assert status == 200\<close>; \<open>None\<close> for a call
  answered with status 200 and for the other events.
\<close>

fun answer_error :: "py_error + int \<Rightarrow> py_error option" where
  "answer_error (Inl err) = Some err"
| "answer_error (Inr status) = (if status = 200 then None else Some AssertionError)"

fun error_of :: "event \<Rightarrow> py_error option" where
  "error_of GetGroups = None"
| "error_of (GetKinds endpoint answer) = answer_error answer"
| "error_of (GetItems endpoint answer) = answer_error answer"
| "error_of (Patch endpoint body answer) = answer_error answer"
| "error_of (Log lvl msg) = None"

text \<open>
  A run stops at the first call that fails: a call that failed is the last effect of the
  run, and the run raised the exception of that call.
\<close>

definition stops_at_failure :: "run \<Rightarrow> bool" where
  "stops_at_failure r \<longleftrightarrow>
     (\<forall>ev \<in> set (effects r). error_of ev \<noteq> None \<longrightarrow> raised r = error_of ev)
     \<and> (\<forall>ev \<in> set (butlast (effects r)). error_of ev = None)"



subsection \<open>Two sweeps in succession\<close>

text \<open>
  A suspension has timed out at the clock reading \<open>k\<close>: the resource has the value
  \<^verbatim>\<open>disabled\<close> and a suspend-until that \<^verbatim>\<open>isoparse\<close> reads and that the comparison
  of the loop body finds before that reading.
\<close>

definition timed_out :: "env \<Rightarrow> nat \<Rightarrow> meta \<Rightarrow> bool" where
  "timed_out e k m \<longleftrightarrow>
     get_annotations m RECONCILE_ANNOTATION = Some ''disabled''
     \<and> (case get_annotations m SUSPEND_UNTIL_ANNOTATION of
          None \<Rightarrow> False
        | Some timeout \<Rightarrow>
            (case isoparse e timeout of
               Inl err \<Rightarrow> False
             | Inr parsed \<Rightarrow> dt_less parsed (Naive (now e k)) = Inr True))"

text \<open>
  What the three \<^verbatim>\<open>remove\<close> operations of the patch leave of a resource: its metadata
  without the reconcile key, the suspend-until key and the suspended-by key.
\<close>

definition unsuspend :: "meta \<Rightarrow> meta" where
  "unsuspend m =
     m\<lparr>meta_annotations :=
         Some (\<lambda>key. if key = RECONCILE_ANNOTATION \<or> key = SUSPEND_UNTIL_ANNOTATION
                         \<or> key = SUSPENDED_BY_ANNOTATION
                      then None else get_annotations m key)\<rparr>"

text \<open>
  Modelled from the spec: the reaction of the server to the removal patches, which is not
  part of the program. The spec speaks of a cluster that nothing but the sweep changes
  between two sweeps, and of the resources timed out in the first sweep as no longer
  suspended in the second. \<open>after_sweep e k\<close> is the cluster \<open>e\<close> in which every listed
  resource whose suspension has timed out at the reading \<open>k\<close> has lost the three keys, and
  in which nothing else has changed: the APIs, the kinds, the order of the listings, the
  answers to patches, the parser and the clock are those of \<open>e\<close>.
\<close>

definition after_sweep :: "env \<Rightarrow> nat \<Rightarrow> env" where
  "after_sweep e k =
     e\<lparr>api_get_items := (\<lambda>endpoint.
         case api_get_items e endpoint of
           Inl err \<Rightarrow> Inl err
         | Inr (status, items) \<Rightarrow>
             Inr (status, map (\<lambda>m. if timed_out e k m then unsuspend m else m) items))\<rparr>"


section \<open>A small cluster\<close>

text \<open>
  An environment to run the program on: the core API with a kind that cannot be listed and
  a cluster-wide kind, and one group \<^verbatim>\<open>apps\<close> with preferred version \<^verbatim>\<open>v1\<close> and a
  namespaced kind \<^verbatim>\<open>HelmRelease\<close>, whose listed resources and whose answer to a patch
  are parameters. \<open>demo_isoparse\<close> holds what \<^verbatim>\<open>isoparse\<close> does on the timestamps
  used here: naive for a timestamp without offset, aware for one with \<^verbatim>\<open>Z\<close>, and
  \<^verbatim>\<open>ValueError\<close>, the exception \<^verbatim>\<open>isoparse\<close> raises on what it cannot read, for
  everything else. The clock starts late in 2025 and advances by one at each reading.
\<close>

definition annotated :: "(string \<times> string) list \<Rightarrow> string \<Rightarrow> meta" where
  "annotated kvs nm =
     \<lparr>meta_namespace = Some ''apps'', meta_name = nm, meta_annotations = Some (map_of kvs)\<rparr>"

definition demo_isoparse :: "string \<Rightarrow> py_error + datetime" where
  "demo_isoparse s =
     (if s = ''2024-01-01T00:00:00'' then Inr (Naive 1704067200)
      else if s = ''2030-01-01T00:00:00'' then Inr (Naive 1893456000)
      else if s = ''2024-01-01T00:00:00Z'' then Inr (Aware 1704067200)
      else if s = ''2030-01-01T00:00:00Z'' then Inr (Aware 1893456000)
      else Inl ValueError)"

definition demo_env :: "meta list \<Rightarrow> int \<Rightarrow> env" where
  "demo_env items patch_status =
     \<lparr>get_api_versions = Inr [\<lparr>api_name = ''apps'', api_preferred_version = ''v1''\<rparr>],
      api_get_kinds = (\<lambda>endpoint.
        if endpoint = ''/api/v1''
        then Inr (200, [\<lparr>rk_name = ''bindings'', rk_kind = ''Binding'',
                          rk_verbs = [''create''], rk_namespaced = True\<rparr>,
                        \<lparr>rk_name = ''nodes'', rk_kind = ''Node'',
                          rk_verbs = [''get'', ''list''], rk_namespaced = False\<rparr>])
        else if endpoint = ''/apis/apps/v1''
        then Inr (200, [\<lparr>rk_name = ''helmreleases'', rk_kind = ''HelmRelease'',
                          rk_verbs = [''get'', ''list'', ''patch''], rk_namespaced = True\<rparr>])
        else Inr (404, [])),
      api_get_items = (\<lambda>endpoint.
        if endpoint = ''/api/v1/nodes''
        then Inr (200, [\<lparr>meta_namespace = None, meta_name = ''node1'',
                          meta_annotations = None\<rparr>])
        else if endpoint = ''/apis/apps/v1/helmreleases'' then Inr (200, items)
        else Inr (404, [])),
      api_patch = (\<lambda>endpoint body. Inr patch_status),
      isoparse = demo_isoparse,
      now = (\<lambda>k. 1762272000 + int k)\<rparr>"

text \<open>The same cluster when the server answers 500 to the listing of the nodes.\<close>

definition demo_env_nodes_down :: "meta list \<Rightarrow> env" where
  "demo_env_nodes_down items =
     (demo_env items 200)\<lparr>api_get_items := (\<lambda>endpoint.
        if endpoint = ''/api/v1/nodes'' then Inr (500, [])
        else api_get_items (demo_env items 200) endpoint)\<rparr>"

text \<open>Resources of the kind \<^verbatim>\<open>HelmRelease\<close>, all in the namespace \<^verbatim>\<open>apps\<close>.\<close>

definition res_active :: meta where
  "res_active = annotated [(RECONCILE_ANNOTATION, ''enabled'')] ''other''"

definition res_indefinite :: meta where
  "res_indefinite = annotated [(RECONCILE_ANNOTATION, ''disabled'')] ''myapp''"

definition res_expired :: meta where
  "res_expired =
     annotated [(RECONCILE_ANNOTATION, ''disabled''),
                (SUSPEND_UNTIL_ANNOTATION, ''2024-01-01T00:00:00''),
                (SUSPENDED_BY_ANNOTATION, ''alice'')] ''expired''"

definition res_future :: meta where
  "res_future =
     annotated [(RECONCILE_ANNOTATION, ''disabled''),
                (SUSPEND_UNTIL_ANNOTATION, ''2030-01-01T00:00:00'')] ''future''"

definition res_expired_aware :: meta where
  "res_expired_aware =
     annotated [(RECONCILE_ANNOTATION, ''disabled''),
                (SUSPEND_UNTIL_ANNOTATION, ''2024-01-01T00:00:00Z'')] ''expired-utc''"

definition res_future_aware :: meta where
  "res_future_aware =
     annotated [(RECONCILE_ANNOTATION, ''disabled''),
                (SUSPEND_UNTIL_ANNOTATION, ''2030-01-01T00:00:00Z'')] ''future-utc''"

definition res_malformed :: meta where
  "res_malformed =
     annotated [(RECONCILE_ANNOTATION, ''disabled''),
                (SUSPEND_UNTIL_ANNOTATION, ''tomorrow'')] ''malformed''"

text \<open>A resource listed under a namespaced kind whose metadata has no namespace.\<close>

definition res_no_namespace :: meta where
  "res_no_namespace =
     \<lparr>meta_namespace = None, meta_name = ''orphan'', meta_annotations = None\<rparr>"



section \<open>Escaping of annotation keys\<close>

lemma replace_pair_other:
  "x \<noteq> a \<Longrightarrow> replace_pair a b new (x # xs) = x # replace_pair a b new xs"
  by (cases xs) simp_all

lemma unescape_slash_step:
  "replace_pair (CHR ''~'') (CHR ''1'') ''/''
     (replace_char (CHR ''/'') ''~1'' (replace_char (CHR ''~'') ''~0'' k))
   = replace_char (CHR ''~'') ''~0'' k"
proof (induction k)
  case Nil
  show ?case by simp
next
  case (Cons c k)
  show ?case
  proof (cases "c = CHR ''~''")
    case True
    then show ?thesis using Cons by (simp add: replace_pair_other)
  next
    case False
    then show ?thesis using Cons by (simp add: replace_pair_other)
  qed
qed

lemma unescape_tilde_step:
  "replace_pair (CHR ''~'') (CHR ''0'') ''~'' (replace_char (CHR ''~'') ''~0'' k) = k"
proof (induction k)
  case Nil
  show ?case by simp
next
  case (Cons c k)
  then show ?case by (simp add: replace_pair_other)
qed

lemma escape_no_slash: "CHR ''/'' \<notin> set (replace_char (CHR ''/'') ''~1'' s)"
  by (induction s) simp_all

text \<open>
  C4. Escaping replaces \<^verbatim>\<open>~\<close> by \<^verbatim>\<open>~0\<close> and then \<^verbatim>\<open>/\<close> by \<^verbatim>\<open>~1\<close>; for every key,
  decoding the escaped key (\<^verbatim>\<open>~1\<close> to \<^verbatim>\<open>/\<close>, then \<^verbatim>\<open>~0\<close> to \<^verbatim>\<open>~\<close>) gives the key
  back, and the escaped key holds no \<^verbatim>\<open>/\<close>, so it is one segment of the path the
  patch names.
\<close>

theorem escape_roundtrip:
  "unescape (escape key) = key
   \<and> CHR ''/'' \<notin> set (escape key)
   \<and> map path (patch_body [key]) = [''/metadata/annotations/'' @ escape key]
   \<and> escape key = replace_char (CHR ''/'') ''~1'' (replace_char (CHR ''~'') ''~0'' key)"
  by (simp add: unescape_def escape_def patch_body_def unescape_slash_step
      unescape_tilde_step escape_no_slash)

section \<open>Loops\<close>

lemma then_run_raised_Some: "raised a = Some err \<Longrightarrow> then_run a f = a"
  by (simp add: then_run_def)

lemma then_run_sel:
  "raised a = None \<Longrightarrow> clock_reads (then_run a f) = clock_reads (f (clock_reads a))"
  "raised a = None \<Longrightarrow> effects (then_run a f) = effects a @ effects (f (clock_reads a))"
  "raised a = None \<Longrightarrow> yielded (then_run a f) = yielded a @ yielded (f (clock_reads a))"
  "raised a = None \<Longrightarrow> raised (then_run a f) = raised (f (clock_reads a))"
  by (simp_all add: then_run_def Let_def)

lemma then_run_raised_None:
  "raised (then_run a f) = None \<longleftrightarrow> raised a = None \<and> raised (f (clock_reads a)) = None"
  by (cases "raised a") (simp_all add: then_run_def Let_def)

lemma then_run_yielded_subset:
  "set (yielded (then_run a f)) \<subseteq> set (yielded a) \<union> set (yielded (f (clock_reads a)))"
  by (cases "raised a") (auto simp: then_run_def Let_def)

lemma then_run_effects_subset:
  "set (effects (then_run a f)) \<subseteq> set (effects a) \<union> set (effects (f (clock_reads a)))"
  by (cases "raised a") (auto simp: then_run_def Let_def)

lemma skip_sel [simp]:
  "clock_reads (skip k) = k" "effects (skip k) = []" "yielded (skip k) = []" "raised (skip k) = None"
  by (simp_all add: skip_def)

lemma for_each_yielded_from:
  "x \<in> set (yielded (for_each body xs k)) \<Longrightarrow> \<exists>a\<in>set xs. \<exists>k'. x \<in> set (yielded (body a k'))"
proof (induction xs arbitrary: k)
  case Nil
  then show ?case by simp
next
  case (Cons a xs)
  from Cons.prems have "x \<in> set (yielded (body a k)) \<or> x \<in> set (yielded (for_each body xs (clock_reads (body a k))))"
    using then_run_yielded_subset [of "body a k" "for_each body xs"] by auto
  then show ?case using Cons.IH by auto
qed

lemma for_each_effects_from:
  "x \<in> set (effects (for_each body xs k)) \<Longrightarrow> \<exists>a\<in>set xs. \<exists>k'. x \<in> set (effects (body a k'))"
proof (induction xs arbitrary: k)
  case Nil
  then show ?case by simp
next
  case (Cons a xs)
  from Cons.prems have "x \<in> set (effects (body a k)) \<or> x \<in> set (effects (for_each body xs (clock_reads (body a k))))"
    using then_run_effects_subset [of "body a k" "for_each body xs"] by auto
  then show ?case using Cons.IH by auto
qed

lemma for_each_covers:
  "raised (for_each body xs k) = None \<Longrightarrow> a \<in> set xs \<Longrightarrow>
   \<exists>k'. raised (body a k') = None
        \<and> set (effects (body a k')) \<subseteq> set (effects (for_each body xs k))
        \<and> set (yielded (body a k')) \<subseteq> set (yielded (for_each body xs k))"
proof (induction xs arbitrary: k)
  case Nil
  then show ?case by simp
next
  case (Cons b xs)
  from Cons.prems(1) have ok: "raised (body b k) = None"
    and rest: "raised (for_each body xs (clock_reads (body b k))) = None"
    by (simp_all add: then_run_raised_None)
  have eff: "effects (for_each body (b # xs) k) = effects (body b k) @ effects (for_each body xs (clock_reads (body b k)))"
    using ok by (simp add: then_run_sel)
  have yld: "yielded (for_each body (b # xs) k) = yielded (body b k) @ yielded (for_each body xs (clock_reads (body b k)))"
    using ok by (simp add: then_run_sel)
  show ?case
  proof (cases "a = b")
    case True
    then show ?thesis using ok eff yld by (intro exI [of _ k]) auto
  next
    case False
    then have "a \<in> set xs" using Cons.prems(2) by simp
    from Cons.IH [OF rest this] obtain k' where
      "raised (body a k') = None"
      "set (effects (body a k')) \<subseteq> set (effects (for_each body xs (clock_reads (body b k))))"
      "set (yielded (body a k')) \<subseteq> set (yielded (for_each body xs (clock_reads (body b k))))"
      by blast
    then show ?thesis using eff yld by (intro exI [of _ k']) auto
  qed
qed

lemma in_kind_resources:
  "(g, v, p, kd, nsd, m) \<in> set (kind_resources e grp version (plural, kind, verbs, namespaced)) \<longleftrightarrow>
   g = grp \<and> v = version \<and> p = plural \<and> kd = kind \<and> nsd = namespaced
   \<and> ''list'' \<in> set verbs \<and> m \<in> set (listed_items e grp version plural)"
  by (auto simp: kind_resources_def)

lemma in_api_resources:
  "(g, v, plural, kind, namespaced, m) \<in> set (api_resources e (grp, version)) \<longleftrightarrow>
   g = grp \<and> v = version
   \<and> (\<exists>verbs. (plural, kind, verbs, namespaced) \<in> set (listed_kinds e grp version)
        \<and> ''list'' \<in> set verbs)
   \<and> m \<in> set (listed_items e grp version plural)"
  unfolding api_resources_def prod.case set_concat set_map
  by (auto simp: in_kind_resources intro!: bexI [where x = "(plural, kind, verbs, namespaced)" for verbs])


lemma check_kind_yielded_from:
  assumes "x \<in> set (yielded (check_kind e grp version (plural, kind, verbs, namespaced) k))"
  shows "''list'' \<in> set verbs \<and>
         (\<exists>m\<in>set (listed_items e grp version plural). \<exists>k'.
            x \<in> set (yielded (check_resource e grp version plural kind namespaced m k')))"
proof -
  from assms have l: "''list'' \<in> set verbs"
    by (auto simp: check_kind_def split: if_splits)
  obtain evs res where g: "getAllResourcesInAPI e grp version plural = (evs, res)"
    by (cases "getAllResourcesInAPI e grp version plural")
  show ?thesis
  proof (cases res)
    case (Inl err)
    with assms g l show ?thesis by (auto simp: check_kind_def split: if_splits)
  next
    case (Inr items)
    with assms g l have
      "x \<in> set (yielded (for_each (check_resource e grp version plural kind namespaced) items k))"
      by (auto simp: check_kind_def then_run_sel split: if_splits)
    from for_each_yielded_from [OF this] Inr g l show ?thesis
      by (auto simp: listed_items_def)
  qed
qed

lemma getAllResourcesInAPI_events:
  "ev \<in> set (fst (getAllResourcesInAPI e grp version plural)) \<Longrightarrow> is_get ev"
  by (auto simp: getAllResourcesInAPI_def Let_def split: sum.splits prod.splits)

lemma getAllResourceKindsInAPI_events:
  "ev \<in> set (fst (getAllResourceKindsInAPI e grp version)) \<Longrightarrow> is_get ev"
  by (auto simp: getAllResourceKindsInAPI_def Let_def split: sum.splits prod.splits)

lemma check_kind_effects_from:
  assumes "ev \<in> set (effects (check_kind e grp version (plural, kind, verbs, namespaced) k))"
    and "\<not> is_get ev"
  shows "''list'' \<in> set verbs \<and>
         (\<exists>m\<in>set (listed_items e grp version plural). \<exists>k'.
            ev \<in> set (effects (check_resource e grp version plural kind namespaced m k')))"
proof -
  from assms have l: "''list'' \<in> set verbs"
    by (auto simp: check_kind_def split: if_splits)
  obtain evs res where g: "getAllResourcesInAPI e grp version plural = (evs, res)"
    by (cases "getAllResourcesInAPI e grp version plural")
  have evs: "ev \<notin> set evs"
    using getAllResourcesInAPI_events [of ev e grp version plural] g assms(2) by auto
  show ?thesis
  proof (cases res)
    case (Inl err)
    with assms g l evs show ?thesis by (auto simp: check_kind_def split: if_splits)
  next
    case (Inr items)
    with assms g l evs have
      "ev \<in> set (effects (for_each (check_resource e grp version plural kind namespaced) items k))"
      by (auto simp: check_kind_def then_run_sel split: if_splits)
    from for_each_effects_from [OF this] Inr g l show ?thesis
      by (auto simp: listed_items_def)
  qed
qed

lemma check_kind_covers:
  assumes "raised (check_kind e grp version (plural, kind, verbs, namespaced) k) = None"
    and "''list'' \<in> set verbs" and "m \<in> set (listed_items e grp version plural)"
  shows "\<exists>k'. raised (check_resource e grp version plural kind namespaced m k') = None
     \<and> set (effects (check_resource e grp version plural kind namespaced m k'))
         \<subseteq> set (effects (check_kind e grp version (plural, kind, verbs, namespaced) k))
     \<and> set (yielded (check_resource e grp version plural kind namespaced m k'))
         \<subseteq> set (yielded (check_kind e grp version (plural, kind, verbs, namespaced) k))"
proof -
  from assms(2) have ne: "verbs \<noteq> []" by auto
  obtain evs res where g: "getAllResourcesInAPI e grp version plural = (evs, res)"
    by (cases "getAllResourcesInAPI e grp version plural")
  show ?thesis
  proof (cases res)
    case (Inl err)
    with assms g ne show ?thesis by (simp add: check_kind_def)
  next
    case (Inr items)
    let ?loop = "for_each (check_resource e grp version plural kind namespaced) items k"
    from Inr g assms ne have r: "raised ?loop = None"
      by (simp add: check_kind_def then_run_raised_None)
    from Inr g assms(3) have mem: "m \<in> set items" by (simp add: listed_items_def)
    have eff: "effects (check_kind e grp version (plural, kind, verbs, namespaced) k) = evs @ effects ?loop"
      and yld: "yielded (check_kind e grp version (plural, kind, verbs, namespaced) k) = yielded ?loop"
      using Inr g assms(2) ne by (simp_all add: check_kind_def then_run_sel)
    from for_each_covers [OF r mem] show ?thesis unfolding eff yld by auto
  qed
qed

lemma check_api_yielded_from:
  assumes "x \<in> set (yielded (check_api e (grp, version) k))"
  shows "\<exists>(g, v, plural, kind, namespaced, m) \<in> set (api_resources e (grp, version)). \<exists>k'.
            x \<in> set (yielded (check_resource e g v plural kind namespaced m k'))"
proof -
  obtain evs res where g: "getAllResourceKindsInAPI e grp version = (evs, res)"
    by (cases "getAllResourceKindsInAPI e grp version")
  show ?thesis
  proof (cases res)
    case (Inl err)
    with assms g show ?thesis by (simp add: check_api_def)
  next
    case (Inr kinds)
    with assms g have "x \<in> set (yielded (for_each (check_kind e grp version) kinds k))"
      by (simp add: check_api_def then_run_sel)
    from for_each_yielded_from [OF this] obtain t k' where
      t: "t \<in> set kinds" "x \<in> set (yielded (check_kind e grp version t k'))" by blast
    obtain plural kind verbs namespaced where t_eq: "t = (plural, kind, verbs, namespaced)"
      by (cases t) auto
    from check_kind_yielded_from [OF t(2) [unfolded t_eq]] obtain m k'' where
      "''list'' \<in> set verbs" "m \<in> set (listed_items e grp version plural)"
      "x \<in> set (yielded (check_resource e grp version plural kind namespaced m k''))" by blast
    moreover from t(1) t_eq Inr g have "(plural, kind, verbs, namespaced) \<in> set (listed_kinds e grp version)"
      by (simp add: listed_kinds_def)
    ultimately have "(grp, version, plural, kind, namespaced, m) \<in> set (api_resources e (grp, version))"
      by (auto simp: in_api_resources)
    with \<open>x \<in> set (yielded (check_resource e grp version plural kind namespaced m k''))\<close>
    show ?thesis by blast
  qed
qed

lemma check_api_effects_from:
  assumes "ev \<in> set (effects (check_api e (grp, version) k))" and "\<not> is_get ev"
  shows "\<exists>(g, v, plural, kind, namespaced, m) \<in> set (api_resources e (grp, version)). \<exists>k'.
            ev \<in> set (effects (check_resource e g v plural kind namespaced m k'))"
proof -
  obtain evs res where g: "getAllResourceKindsInAPI e grp version = (evs, res)"
    by (cases "getAllResourceKindsInAPI e grp version")
  have evs: "ev \<notin> set evs"
    using getAllResourceKindsInAPI_events [of ev e grp version] g assms(2) by auto
  show ?thesis
  proof (cases res)
    case (Inl err)
    with assms g evs show ?thesis by (simp add: check_api_def)
  next
    case (Inr kinds)
    with assms g evs have "ev \<in> set (effects (for_each (check_kind e grp version) kinds k))"
      by (simp add: check_api_def then_run_sel)
    from for_each_effects_from [OF this] obtain t k' where
      t: "t \<in> set kinds" "ev \<in> set (effects (check_kind e grp version t k'))" by blast
    obtain plural kind verbs namespaced where t_eq: "t = (plural, kind, verbs, namespaced)"
      by (cases t) auto
    from check_kind_effects_from [OF t(2) [unfolded t_eq] assms(2)] obtain m k'' where
      "''list'' \<in> set verbs" "m \<in> set (listed_items e grp version plural)"
      "ev \<in> set (effects (check_resource e grp version plural kind namespaced m k''))" by blast
    moreover from t(1) t_eq Inr g have "(plural, kind, verbs, namespaced) \<in> set (listed_kinds e grp version)"
      by (simp add: listed_kinds_def)
    ultimately have "(grp, version, plural, kind, namespaced, m) \<in> set (api_resources e (grp, version))"
      by (auto simp: in_api_resources)
    with \<open>ev \<in> set (effects (check_resource e grp version plural kind namespaced m k''))\<close>
    show ?thesis by blast
  qed
qed

lemma check_api_covers:
  assumes "raised (check_api e (grp, version) k) = None"
    and "(g, v, plural, kind, namespaced, m) \<in> set (api_resources e (grp, version))"
  shows "\<exists>k'. raised (check_resource e g v plural kind namespaced m k') = None
     \<and> set (effects (check_resource e g v plural kind namespaced m k'))
         \<subseteq> set (effects (check_api e (grp, version) k))
     \<and> set (yielded (check_resource e g v plural kind namespaced m k'))
         \<subseteq> set (yielded (check_api e (grp, version) k))"
proof -
  from assms(2) obtain verbs where
    gv: "g = grp" "v = version"
    and kd: "(plural, kind, verbs, namespaced) \<in> set (listed_kinds e grp version)"
    and l: "''list'' \<in> set verbs"
    and m: "m \<in> set (listed_items e grp version plural)"
    by (auto simp: in_api_resources)
  obtain evs res where g: "getAllResourceKindsInAPI e grp version = (evs, res)"
    by (cases "getAllResourceKindsInAPI e grp version")
  show ?thesis
  proof (cases res)
    case (Inl err)
    with assms g show ?thesis by (simp add: check_api_def)
  next
    case (Inr kinds)
    let ?loop = "for_each (check_kind e grp version) kinds k"
    from Inr g assms(1) have r: "raised ?loop = None"
      by (simp add: check_api_def then_run_raised_None)
    from Inr g kd have mem: "(plural, kind, verbs, namespaced) \<in> set kinds"
      by (simp add: listed_kinds_def)
    have eff: "effects (check_api e (grp, version) k) = evs @ effects ?loop"
      and yld: "yielded (check_api e (grp, version) k) = yielded ?loop"
      using Inr g by (simp_all add: check_api_def then_run_sel)
    from for_each_covers [OF r mem] obtain k' where
      k': "raised (check_kind e grp version (plural, kind, verbs, namespaced) k') = None"
      "set (effects (check_kind e grp version (plural, kind, verbs, namespaced) k')) \<subseteq> set (effects ?loop)"
      "set (yielded (check_kind e grp version (plural, kind, verbs, namespaced) k')) \<subseteq> set (yielded ?loop)"
      by blast
    from check_kind_covers [OF k'(1) l m] obtain k'' where
      "raised (check_resource e grp version plural kind namespaced m k'') = None"
      "set (effects (check_resource e grp version plural kind namespaced m k''))
         \<subseteq> set (effects (check_kind e grp version (plural, kind, verbs, namespaced) k'))"
      "set (yielded (check_resource e grp version plural kind namespaced m k''))
         \<subseteq> set (yielded (check_kind e grp version (plural, kind, verbs, namespaced) k'))"
      by blast
    with k'(2,3) show ?thesis unfolding eff yld gv by (intro exI [of _ k'']) auto
  qed
qed

lemma checkAllResources_unfold:
  "checkAllResources e k =
     then_run (check_api e ([], ''v1'') k)
       (\<lambda>k'. case get_api_versions e of
               Inl err \<Rightarrow> \<lparr>clock_reads = k', effects = [GetGroups], yielded = [], raised = Some err\<rparr>
             | Inr groups \<Rightarrow>
                 then_run \<lparr>clock_reads = k', effects = [GetGroups], yielded = [], raised = None\<rparr>
                   (for_each (check_api e)
                      (map (\<lambda>api. (api_name api, api_preferred_version api)) groups)))"
  by (simp add: checkAllResources_def getAllAPIs_def split: sum.splits)

lemma listed_apis_unfold:
  "listed_apis e =
     ([], ''v1'') # (case get_api_versions e of Inl err \<Rightarrow> []
                     | Inr groups \<Rightarrow> map (\<lambda>api. (api_name api, api_preferred_version api)) groups)"
  by (simp add: listed_apis_def getAllAPIs_def split: sum.splits)

lemma api_in_getAllResources:
  "gv \<in> set (listed_apis e) \<Longrightarrow> t \<in> set (api_resources e gv) \<Longrightarrow> t \<in> set (getAllResources e)"
  by (auto simp: getAllResources_def)

lemma sweep_yielded_from:
  assumes "x \<in> set (yielded (checkAllResources e k))"
  shows "\<exists>(grp, version, plural, kind, namespaced, m) \<in> set (getAllResources e). \<exists>k'.
            x \<in> set (yielded (check_resource e grp version plural kind namespaced m k'))"
proof -
  let ?core = "check_api e ([], ''v1'') k"
  have "\<exists>gv\<in>set (listed_apis e). \<exists>k'. x \<in> set (yielded (check_api e gv k'))"
  proof (cases "x \<in> set (yielded ?core)")
    case True
    then show ?thesis by (auto simp: listed_apis_unfold)
  next
    case False
    with assms have r: "raised ?core = None"
      by (cases "raised ?core") (auto simp: checkAllResources_unfold then_run_raised_Some)
    show ?thesis
    proof (cases "get_api_versions e")
      case (Inl err)
      with assms False r show ?thesis by (simp add: checkAllResources_unfold then_run_sel)
    next
      case (Inr groups)
      with assms False r have
        "x \<in> set (yielded (for_each (check_api e)
            (map (\<lambda>api. (api_name api, api_preferred_version api)) groups) (clock_reads ?core)))"
        by (simp add: checkAllResources_unfold then_run_sel)
      from for_each_yielded_from [OF this] Inr show ?thesis
        by (auto simp: listed_apis_unfold)
    qed
  qed
  then obtain gv k' where gv: "gv \<in> set (listed_apis e)" "x \<in> set (yielded (check_api e gv k'))"
    by blast
  obtain grp version where gv_eq: "gv = (grp, version)" by (cases gv)
  from check_api_yielded_from [OF gv(2) [unfolded gv_eq]] obtain t k'' where
    t: "t \<in> set (api_resources e (grp, version))"
    "case t of (g, v, plural, kind, namespaced, m) \<Rightarrow>
       x \<in> set (yielded (check_resource e g v plural kind namespaced m k''))"
    by (auto split: prod.splits)
  from api_in_getAllResources [OF gv(1) [unfolded gv_eq] t(1)] t(2) show ?thesis
    by (auto split: prod.splits intro!: bexI [of _ t])
qed

lemma sweep_effects_from:
  assumes "ev \<in> set (effects (checkAllResources e k))" and "\<not> is_get ev"
  shows "\<exists>(grp, version, plural, kind, namespaced, m) \<in> set (getAllResources e). \<exists>k'.
            ev \<in> set (effects (check_resource e grp version plural kind namespaced m k'))"
proof -
  let ?core = "check_api e ([], ''v1'') k"
  have "\<exists>gv\<in>set (listed_apis e). \<exists>k'. ev \<in> set (effects (check_api e gv k'))"
  proof (cases "ev \<in> set (effects ?core)")
    case True
    then show ?thesis by (auto simp: listed_apis_unfold)
  next
    case False
    with assms have r: "raised ?core = None"
      by (cases "raised ?core") (auto simp: checkAllResources_unfold then_run_raised_Some)
    have ng: "ev \<noteq> GetGroups" using assms(2) by auto
    show ?thesis
    proof (cases "get_api_versions e")
      case (Inl err)
      with assms False r ng show ?thesis by (simp add: checkAllResources_unfold then_run_sel)
    next
      case (Inr groups)
      with assms False r ng have
        "ev \<in> set (effects (for_each (check_api e)
            (map (\<lambda>api. (api_name api, api_preferred_version api)) groups) (clock_reads ?core)))"
        by (simp add: checkAllResources_unfold then_run_sel)
      from for_each_effects_from [OF this] Inr show ?thesis
        by (auto simp: listed_apis_unfold)
    qed
  qed
  then obtain gv k' where gv: "gv \<in> set (listed_apis e)" "ev \<in> set (effects (check_api e gv k'))"
    by blast
  obtain grp version where gv_eq: "gv = (grp, version)" by (cases gv)
  from check_api_effects_from [OF gv(2) [unfolded gv_eq] assms(2)] obtain t k'' where
    t: "t \<in> set (api_resources e (grp, version))"
    "case t of (g, v, plural, kind, namespaced, m) \<Rightarrow>
       ev \<in> set (effects (check_resource e g v plural kind namespaced m k''))"
    by (auto split: prod.splits)
  from api_in_getAllResources [OF gv(1) [unfolded gv_eq] t(1)] t(2) show ?thesis
    by (auto split: prod.splits intro!: bexI [of _ t])
qed

lemma sweep_covers:
  assumes "raised (checkAllResources e k) = None"
    and "(grp, version, plural, kind, namespaced, m) \<in> set (getAllResources e)"
  shows "\<exists>k'. raised (check_resource e grp version plural kind namespaced m k') = None
     \<and> set (effects (check_resource e grp version plural kind namespaced m k'))
         \<subseteq> set (effects (checkAllResources e k))
     \<and> set (yielded (check_resource e grp version plural kind namespaced m k'))
         \<subseteq> set (yielded (checkAllResources e k))"
proof -
  let ?core = "check_api e ([], ''v1'') k"
  from assms(1) have r: "raised ?core = None"
    by (simp add: checkAllResources_unfold then_run_raised_None)
  from assms(2) obtain gv where gv: "gv \<in> set (listed_apis e)"
    "(grp, version, plural, kind, namespaced, m) \<in> set (api_resources e gv)"
    by (auto simp: getAllResources_def)
  have "\<exists>k'. raised (check_api e gv k') = None
        \<and> set (effects (check_api e gv k')) \<subseteq> set (effects (checkAllResources e k))
        \<and> set (yielded (check_api e gv k')) \<subseteq> set (yielded (checkAllResources e k))"
  proof (cases "gv = ([], ''v1'')")
    case True
    with r show ?thesis
      by (intro exI [of _ k]) (auto simp: checkAllResources_unfold then_run_sel)
  next
    case False
    show ?thesis
    proof (cases "get_api_versions e")
      case (Inl err)
      with assms(1) r show ?thesis by (simp add: checkAllResources_unfold then_run_sel)
    next
      case (Inr groups)
      let ?apis = "map (\<lambda>api. (api_name api, api_preferred_version api)) groups"
      let ?loop = "for_each (check_api e) ?apis (clock_reads ?core)"
      from Inr assms(1) r have rl: "raised ?loop = None"
        by (simp add: checkAllResources_unfold then_run_sel then_run_raised_None)
      from Inr gv(1) False have mem: "gv \<in> set ?apis" by (auto simp: listed_apis_unfold)
      have eff: "effects (checkAllResources e k) = effects ?core @ GetGroups # effects ?loop"
        and yld: "yielded (checkAllResources e k) = yielded ?core @ yielded ?loop"
        using Inr r by (simp_all add: checkAllResources_unfold then_run_sel)
      from for_each_covers [OF rl mem] show ?thesis unfolding eff yld by auto
    qed
  qed
  then obtain k' where k': "raised (check_api e gv k') = None"
    "set (effects (check_api e gv k')) \<subseteq> set (effects (checkAllResources e k))"
    "set (yielded (check_api e gv k')) \<subseteq> set (yielded (checkAllResources e k))"
    by blast
  obtain g v where gv_eq: "gv = (g, v)" by (cases gv)
  from check_api_covers [OF k'(1) [unfolded gv_eq] gv(2) [unfolded gv_eq]] obtain k'' where
    "raised (check_resource e grp version plural kind namespaced m k'') = None"
    "set (effects (check_resource e grp version plural kind namespaced m k''))
       \<subseteq> set (effects (check_api e (g, v) k'))"
    "set (yielded (check_resource e grp version plural kind namespaced m k''))
       \<subseteq> set (yielded (check_api e (g, v) k'))"
    by blast
  with k'(2,3) show ?thesis unfolding gv_eq by (intro exI [of _ k'']) auto
qed

section \<open>The loop body and the gauges\<close>

lemma check_resource_active:
  assumes "get_annotations m RECONCILE_ANNOTATION \<noteq> Some ''disabled''"
  shows "yielded (check_resource e grp version plural kind namespaced m k) = []"
    and "effects (check_resource e grp version plural kind namespaced m k) = []"
    and "clock_reads (check_resource e grp version plural kind namespaced m k) = k"
  using assms by (simp_all add: check_resource_def Let_def split: sum.splits)

lemma check_resource_active_skip:
  assumes "get_annotations m RECONCILE_ANNOTATION \<noteq> Some ''disabled''"
    and "get_namespace namespaced m = Inr ns"
  shows "check_resource e grp version plural kind namespaced m k = skip k"
  using assms by (simp add: check_resource_def Let_def)

lemma check_resource_suspended_log:
  assumes "get_annotations m RECONCILE_ANNOTATION = Some ''disabled''"
    and "get_namespace namespaced m = Inr ns"
  shows "\<exists>rest. effects (check_resource e grp version plural kind namespaced m k) =
     Log Debug (''Resource '' @ resourceName grp version ns (meta_name m) @ '' is suspended'') # rest"
  using assms
  by (simp add: check_resource_def Let_def split: sum.splits option.splits)

lemma check_resource_yield:
  assumes "x \<in> set (yielded (check_resource e grp version plural kind namespaced m k))"
  shows "get_annotations m RECONCILE_ANNOTATION = Some ''disabled''"
    and "\<exists>ns. get_namespace namespaced m = Inr ns
              \<and> fst x = [grp @ ''/'' @ version, kind, ns, meta_name m]"
    and "snd (snd x) = (get_annotations m SUSPENDED_BY_ANNOTATION \<noteq> None)"
    and "yielded (check_resource e grp version plural kind namespaced m k) = [x]"
    and "raised (check_resource e grp version plural kind namespaced m k) = None"
  using assms
  by (auto simp: check_resource_def Let_def split: sum.splits option.splits if_splits)


lemma add_metrics_samples:
  "add_metrics (gAll, gUnowned, gIndefinite) ys = (gAll', gUnowned', gIndefinite') \<Longrightarrow>
   gauge_samples gAll' = gauge_samples gAll @ map (\<lambda>(labels, t, owner). (labels, 1)) ys
   \<and> gauge_samples gUnowned'
       = gauge_samples gUnowned @ map (\<lambda>(labels, t, owner). (labels, if owner then 0 else 1)) ys
   \<and> gauge_samples gIndefinite'
       = gauge_samples gIndefinite @ map (\<lambda>(labels, t, owner). (labels, if t then 0 else 1)) ys"
proof (induction ys arbitrary: gAll gUnowned gIndefinite)
  case Nil
  then show ?case by simp
next
  case (Cons y ys)
  obtain labels t owner where y: "y = (labels, t, owner)" by (cases y)
  from Cons.prems have
    "add_metrics (add_metric gAll labels 1, add_metric gUnowned labels (if owner then 0 else 1),
        add_metric gIndefinite labels (if t then 0 else 1)) ys = (gAll', gUnowned', gIndefinite')"
    by (simp add: y)
  from Cons.IH [OF this] show ?case by (simp add: y add_metric_def)
qed

lemma collect_samples:
  assumes "collect e k = Inr (gAll, gUnowned, gIndefinite)"
  shows "raised (checkAllResources e k) = None"
    and "gauge_samples gAll
         = map (\<lambda>(labels, t, owner). (labels, 1)) (yielded (checkAllResources e k))"
    and "gauge_samples gUnowned
         = map (\<lambda>(labels, t, owner). (labels, if owner then 0 else 1))
             (yielded (checkAllResources e k))"
    and "gauge_samples gIndefinite
         = map (\<lambda>(labels, t, owner). (labels, if t then 0 else 1))
             (yielded (checkAllResources e k))"
proof -
  from assms show r: "raised (checkAllResources e k) = None"
    by (cases "raised (checkAllResources e k)") (simp_all add: collect_def Let_def)
  obtain g1 g2 g3 where g: "getGauges = (g1, g2, g3)" by (cases getGauges)
  then have e: "gauge_samples g1 = []" "gauge_samples g2 = []" "gauge_samples g3 = []"
    by (auto simp: getGauges_def)
  from assms r g have
    "add_metrics (g1, g2, g3) (yielded (checkAllResources e k)) = (gAll, gUnowned, gIndefinite)"
    by (simp add: collect_def Let_def)
  from add_metrics_samples [OF this] e
  show "gauge_samples gAll
         = map (\<lambda>(labels, t, owner). (labels, 1)) (yielded (checkAllResources e k))"
    and "gauge_samples gUnowned
         = map (\<lambda>(labels, t, owner). (labels, if owner then 0 else 1))
             (yielded (checkAllResources e k))"
    and "gauge_samples gIndefinite
         = map (\<lambda>(labels, t, owner). (labels, if t then 0 else 1))
             (yielded (checkAllResources e k))"
    by simp_all
qed

lemma collect_sample_labels:
  assumes "collect e k = Inr (gAll, gUnowned, gIndefinite)"
    and "sample \<in> set (gauge_samples gAll) \<union> set (gauge_samples gUnowned)
                 \<union> set (gauge_samples gIndefinite)"
  shows "\<exists>x\<in>set (yielded (checkAllResources e k)). fst sample = fst x"
  using assms(2) unfolding collect_samples(2-4) [OF assms(1)] by force

text \<open>The definitions to unfold when the program is run on the small cluster.\<close>

lemma then_run_literal_None:
  "then_run \<lparr>clock_reads = k, effects = es, yielded = ys, raised = None\<rparr> f
   = effects_update ((@) es) (yielded_update ((@) ys) (f k))"
  by (simp add: then_run_def Let_def)

lemma then_run_literal_Some:
  "then_run \<lparr>clock_reads = k, effects = es, yielded = ys, raised = Some err\<rparr> f
   = \<lparr>clock_reads = k, effects = es, yielded = ys, raised = Some err\<rparr>"
  by (simp add: then_run_def)

lemmas demo_defs =
  checkAllResources_def check_api_def check_kind_def check_resource_def getAllAPIs_def
  getAllResourceKindsInAPI_def getAllResourcesInAPI_def then_run_literal_None
  then_run_literal_Some skip_def Let_def
  kinds_endpoint_def items_endpoint_def demo_env_def annotated_def demo_isoparse_def
  RECONCILE_ANNOTATION_def SUSPEND_UNTIL_ANNOTATION_def SUSPENDED_BY_ANNOTATION_def
  removeResourceAnnotation_def patch_endpoint_def patch_body_def escape_def resourceName_def
  get_annotations_def get_namespace_def removeAnnotations_def demo_env_nodes_down_def
  res_active_def res_indefinite_def res_expired_def res_future_def res_expired_aware_def
  res_future_aware_def res_malformed_def res_no_namespace_def

section \<open>Active resources\<close>

text \<open>
  C1. A resource is treated as suspended exactly when its annotations map the reconcile key
  to \<^verbatim>\<open>disabled\<close>. For any other value, or without the key, the loop body yields
  nothing and has no effect (it is \<^verbatim>\<open>continue\<close>, unless reading the namespace raised
  first); when the namespace could be read, the record "is suspended" is logged if and
  only if the value is \<^verbatim>\<open>disabled\<close>. In a collection that returns its gauges, every
  sample of each of the three gauges carries the labels of a listed resource whose value
  is \<^verbatim>\<open>disabled\<close>: no sample stems from any other resource.
\<close>

theorem active_resources_not_reported:
  "(get_annotations m RECONCILE_ANNOTATION \<noteq> Some ''disabled'' \<longrightarrow>
      yielded (check_resource e grp version plural kind namespaced m k) = []
      \<and> effects (check_resource e grp version plural kind namespaced m k) = []
      \<and> (get_namespace namespaced m = Inr ns \<longrightarrow>
           check_resource e grp version plural kind namespaced m k = skip k))
   \<and> (get_namespace namespaced m = Inr ns \<longrightarrow>
        (Log Debug (''Resource '' @ resourceName grp version ns (meta_name m) @ '' is suspended'')
           \<in> set (effects (check_resource e grp version plural kind namespaced m k))
         \<longleftrightarrow> get_annotations m RECONCILE_ANNOTATION = Some ''disabled''))
   \<and> (collect e k0 = Inr (gAll, gUnowned, gIndefinite) \<longrightarrow>
        (\<forall>sample \<in> set (gauge_samples gAll) \<union> set (gauge_samples gUnowned)
                     \<union> set (gauge_samples gIndefinite).
           \<exists>(g, v, p, kd, nsd, m') \<in> set (getAllResources e).
              get_annotations m' RECONCILE_ANNOTATION = Some ''disabled''
              \<and> (\<exists>ns'. get_namespace nsd m' = Inr ns'
                        \<and> fst sample = [g @ ''/'' @ v, kd, ns', meta_name m'])))"
proof (intro conjI impI ballI)
  assume a: "get_annotations m RECONCILE_ANNOTATION \<noteq> Some ''disabled''"
  show "yielded (check_resource e grp version plural kind namespaced m k) = []"
    and "effects (check_resource e grp version plural kind namespaced m k) = []"
    using check_resource_active [OF a] by simp_all
  assume "get_namespace namespaced m = Inr ns"
  with a show "check_resource e grp version plural kind namespaced m k = skip k"
    by (rule check_resource_active_skip)
next
  assume n: "get_namespace namespaced m = Inr ns"
  show "(Log Debug (''Resource '' @ resourceName grp version ns (meta_name m) @ '' is suspended'')
           \<in> set (effects (check_resource e grp version plural kind namespaced m k)))
         = (get_annotations m RECONCILE_ANNOTATION = Some ''disabled'')"
  proof (cases "get_annotations m RECONCILE_ANNOTATION = Some ''disabled''")
    case True
    with check_resource_suspended_log [OF True n, of e grp version plural kind k]
    show ?thesis by auto
  next
    case False
    with check_resource_active(2) [OF False, of e grp version plural kind namespaced k]
    show ?thesis by simp
  qed
next
  fix sample
  assume c: "collect e k0 = Inr (gAll, gUnowned, gIndefinite)"
    and s: "sample \<in> set (gauge_samples gAll) \<union> set (gauge_samples gUnowned)
                 \<union> set (gauge_samples gIndefinite)"
  from collect_sample_labels [OF c s] obtain x where
    x: "x \<in> set (yielded (checkAllResources e k0))" "fst sample = fst x" by blast
  from sweep_yielded_from [OF x(1)] obtain t k' where
    t: "t \<in> set (getAllResources e)"
    and y: "case t of (g, v, p, kd, nsd, m') \<Rightarrow>
              x \<in> set (yielded (check_resource e g v p kd nsd m' k'))"
    by (auto split: prod.splits)
  obtain g v p kd nsd m' where t_eq: "t = (g, v, p, kd, nsd, m')" by (cases t) auto
  from y t_eq have y': "x \<in> set (yielded (check_resource e g v p kd nsd m' k'))" by simp
  from check_resource_yield(1,2) [OF y'] x(2) t t_eq
  show "\<exists>(g, v, p, kd, nsd, m') \<in> set (getAllResources e).
              get_annotations m' RECONCILE_ANNOTATION = Some ''disabled''
              \<and> (\<exists>ns'. get_namespace nsd m' = Inr ns'
                        \<and> fst sample = [g @ ''/'' @ v, kd, ns', meta_name m'])"
    by (intro bexI [of _ t]) auto
qed

theorem active_resources_not_reported_witness:
  "get_annotations (annotated [(RECONCILE_ANNOTATION, ''enabled'')] ''other'') RECONCILE_ANNOTATION
     \<noteq> Some ''disabled''
   \<and> get_namespace True (annotated [(RECONCILE_ANNOTATION, ''enabled'')] ''other'') = Inr ''apps''
   \<and> check_resource
        (demo_env [annotated [(RECONCILE_ANNOTATION, ''enabled'')] ''other'',
                   annotated [(RECONCILE_ANNOTATION, ''disabled'')] ''myapp''] 200)
        ''apps'' ''v1'' ''helmreleases'' ''HelmRelease'' True
        (annotated [(RECONCILE_ANNOTATION, ''enabled'')] ''other'') 0 = skip 0
   \<and> (\<exists>gAll gUnowned gIndefinite.
        collect (demo_env [annotated [(RECONCILE_ANNOTATION, ''enabled'')] ''other'',
                           annotated [(RECONCILE_ANNOTATION, ''disabled'')] ''myapp''] 200) 0
          = Inr (gAll, gUnowned, gIndefinite)
        \<and> gauge_samples gAll = [([''apps/v1'', ''HelmRelease'', ''apps'', ''myapp''], 1)]
        \<and> (\<forall>sample \<in> set (gauge_samples gAll) \<union> set (gauge_samples gUnowned)
                       \<union> set (gauge_samples gIndefinite).
             \<exists>(g, v, p, kd, nsd, m') \<in> set (getAllResources
                 (demo_env [annotated [(RECONCILE_ANNOTATION, ''enabled'')] ''other'',
                            annotated [(RECONCILE_ANNOTATION, ''disabled'')] ''myapp''] 200)).
               get_annotations m' RECONCILE_ANNOTATION = Some ''disabled''
               \<and> (\<exists>ns'. get_namespace nsd m' = Inr ns'
                         \<and> fst sample = [g @ ''/'' @ v, kd, ns', meta_name m'])))"
proof -
  let ?m = "annotated [(RECONCILE_ANNOTATION, ''enabled'')] ''other''"
  let ?e = "demo_env [?m, annotated [(RECONCILE_ANNOTATION, ''disabled'')] ''myapp''] 200"
  have p1: "get_annotations ?m RECONCILE_ANNOTATION \<noteq> Some ''disabled''"
    by (simp add: demo_defs)
  have p2: "get_namespace True ?m = Inr ''apps''"
    by (simp add: demo_defs)
  have c: "collect ?e 0
           = Inr (add_metrics getGauges [([''apps/v1'', ''HelmRelease'', ''apps'', ''myapp''], False, False)])"
    by (simp add: collect_def demo_defs)
  obtain gAll gUnowned gIndefinite where
    g: "add_metrics getGauges [([''apps/v1'', ''HelmRelease'', ''apps'', ''myapp''], False, False)]
        = (gAll, gUnowned, gIndefinite)"
    by (rule prod_cases3)
  have s: "gauge_samples gAll = [([''apps/v1'', ''HelmRelease'', ''apps'', ''myapp''], 1)]"
    using g by (auto simp: getGauges_def add_metric_def)
  from active_resources_not_reported
    [of ?m ?e "''apps''" "''v1''" "''helmreleases''" "''HelmRelease''" True 0 "''apps''" 0
        gAll gUnowned gIndefinite] p1 p2 c g s
  show ?thesis by auto
qed

section \<open>The branches of the loop body\<close>

lemma check_resource_timed_out:
  assumes "get_annotations m RECONCILE_ANNOTATION = Some ''disabled''"
    and "get_namespace namespaced m = Inr ns"
    and "get_annotations m SUSPEND_UNTIL_ANNOTATION = Some timeout"
    and "isoparse e timeout = Inr parsed"
    and "dt_less parsed (Naive (now e k)) = Inr True"
  shows "check_resource e grp version plural kind namespaced m k =
     \<lparr>clock_reads = Suc k,
      effects =
        [Log Debug (''Resource '' @ resourceName grp version ns (meta_name m) @ '' is suspended''),
         Log Info (''Removing suspend annotations from ''
                   @ resourceName grp version ns (meta_name m)),
         Patch (patch_endpoint grp version plural ns (meta_name m))
           (patch_body (removeAnnotations (get_annotations m SUSPENDED_BY_ANNOTATION \<noteq> None)))
           (api_patch e (patch_endpoint grp version plural ns (meta_name m))
              (patch_body (removeAnnotations
                 (get_annotations m SUSPENDED_BY_ANNOTATION \<noteq> None))))],
      yielded = [],
      raised =
        (case api_patch e (patch_endpoint grp version plural ns (meta_name m))
                (patch_body (removeAnnotations
                   (get_annotations m SUSPENDED_BY_ANNOTATION \<noteq> None))) of
           Inl err \<Rightarrow> Some err
         | Inr status \<Rightarrow> if status = 200 then None else Some AssertionError)\<rparr>"
  using assms by (simp add: check_resource_def removeResourceAnnotation_def Let_def)

lemma check_resource_not_timed_out:
  assumes "get_annotations m RECONCILE_ANNOTATION = Some ''disabled''"
    and "get_namespace namespaced m = Inr ns"
    and "get_annotations m SUSPEND_UNTIL_ANNOTATION = Some timeout"
    and "isoparse e timeout = Inr parsed"
    and "dt_less parsed (Naive (now e k)) = Inr False"
  shows "check_resource e grp version plural kind namespaced m k =
     \<lparr>clock_reads = Suc k,
      effects =
        [Log Debug (''Resource '' @ resourceName grp version ns (meta_name m) @ '' is suspended'')],
      yielded = [([grp @ ''/'' @ version, kind, ns, meta_name m], True,
                  get_annotations m SUSPENDED_BY_ANNOTATION \<noteq> None)],
      raised = None\<rparr>"
  using assms by (simp add: check_resource_def Let_def)





lemma check_resource_namespace_raises:
  assumes "get_namespace namespaced m = Inl err"
  shows "check_resource e grp version plural kind namespaced m k =
     \<lparr>clock_reads = k, effects = [], yielded = [], raised = Some err\<rparr>"
  using assms by (simp add: check_resource_def Let_def)

lemma check_resource_hasTimeout:
  assumes "x \<in> set (yielded (check_resource e grp version plural kind namespaced m k))"
  shows "fst (snd x) \<longleftrightarrow>
     (\<exists>timeout parsed. get_annotations m SUSPEND_UNTIL_ANNOTATION = Some timeout
        \<and> isoparse e timeout = Inr parsed)"
  using assms
  by (auto simp: check_resource_def Let_def split: sum.splits option.splits if_splits)

lemma check_resource_patch_from:
  assumes "Patch endpoint body answer \<in> set (effects (check_resource e grp version plural kind namespaced m k))"
  shows "get_annotations m RECONCILE_ANNOTATION = Some ''disabled''"
    and "\<exists>timeout parsed. get_annotations m SUSPEND_UNTIL_ANNOTATION = Some timeout
        \<and> isoparse e timeout = Inr parsed \<and> dt_less parsed (Naive (now e k)) = Inr True"
    and "yielded (check_resource e grp version plural kind namespaced m k) = []"
    and "\<exists>ns. get_namespace namespaced m = Inr ns
        \<and> endpoint = patch_endpoint grp version plural ns (meta_name m)"
    and "body = patch_body (removeAnnotations (get_annotations m SUSPENDED_BY_ANNOTATION \<noteq> None))"
    and "answer = api_patch e endpoint body"
  using assms
  by (auto simp: check_resource_def removeResourceAnnotation_def Let_def
      split: sum.splits option.splits if_splits)

lemmas listing_defs =
  getAllResources_def api_resources_def kind_resources_def listed_apis_def listed_kinds_def
  listed_items_def

section \<open>Gauge values\<close>

text \<open>
  In a collection that returns its gauges, the three gauges hold one sample
  per element yielded, in the same order and with the same labels: the first with value 1,
  the second with 1 exactly when \<^verbatim>\<open>hasOwner\<close> is false, the third with 1 exactly when
  \<^verbatim>\<open>hasTimeout\<close> is false; each element comes from a listed resource, \<^verbatim>\<open>hasOwner\<close>
  says that the resource has the suspended-by key and \<^verbatim>\<open>hasTimeout\<close> that it has a
  suspend-until value which \<^verbatim>\<open>isoparse\<close> read. In particular the loop body, on a
  resource with the value \<^verbatim>\<open>disabled\<close>, a suspend-until that \<^verbatim>\<open>isoparse\<close> reads as
  a naive timestamp not before the clock reading, and no suspended-by key, yields one
  element whose samples are 1, 1 and 0.
\<close>

theorem gauge_values:
  "(collect e k0 = Inr (gAll, gUnowned, gIndefinite) \<longrightarrow>
      gauge_samples gAll
        = map (\<lambda>(labels, hasTimeout, hasOwner). (labels, 1)) (yielded (checkAllResources e k0))
      \<and> gauge_samples gUnowned
        = map (\<lambda>(labels, hasTimeout, hasOwner). (labels, if hasOwner then 0 else 1))
            (yielded (checkAllResources e k0))
      \<and> gauge_samples gIndefinite
        = map (\<lambda>(labels, hasTimeout, hasOwner). (labels, if hasTimeout then 0 else 1))
            (yielded (checkAllResources e k0))
      \<and> map fst (gauge_samples gUnowned) = map fst (gauge_samples gAll)
      \<and> map fst (gauge_samples gIndefinite) = map fst (gauge_samples gAll)
      \<and> (\<forall>(labels, hasTimeout, hasOwner) \<in> set (yielded (checkAllResources e k0)).
           \<exists>(g, v, p, kd, nsd, m') \<in> set (getAllResources e).
              (hasOwner \<longleftrightarrow> get_annotations m' SUSPENDED_BY_ANNOTATION \<noteq> None)
              \<and> (hasTimeout \<longleftrightarrow>
                   (\<exists>timeout parsed. get_annotations m' SUSPEND_UNTIL_ANNOTATION = Some timeout
                      \<and> isoparse e timeout = Inr parsed))
              \<and> (\<exists>ns'. get_namespace nsd m' = Inr ns'
                     \<and> labels = [g @ ''/'' @ v, kd, ns', meta_name m'])))
   \<and> (get_annotations m RECONCILE_ANNOTATION = Some ''disabled''
       \<and> get_namespace namespaced m = Inr ns
       \<and> get_annotations m SUSPEND_UNTIL_ANNOTATION = Some timeout
       \<and> isoparse e timeout = Inr (Naive d) \<and> now e k \<le> d
       \<and> get_annotations m SUSPENDED_BY_ANNOTATION = None
       \<and> add_metrics getGauges (yielded (check_resource e grp version plural kind namespaced m k))
           = (gA, gU, gI) \<longrightarrow>
         yielded (check_resource e grp version plural kind namespaced m k)
           = [([grp @ ''/'' @ version, kind, ns, meta_name m], True, False)]
         \<and> raised (check_resource e grp version plural kind namespaced m k) = None
         \<and> gauge_samples gA = [([grp @ ''/'' @ version, kind, ns, meta_name m], 1)]
         \<and> gauge_samples gU = [([grp @ ''/'' @ version, kind, ns, meta_name m], 1)]
         \<and> gauge_samples gI = [([grp @ ''/'' @ version, kind, ns, meta_name m], 0)])"
proof (intro conjI impI)
  assume c: "collect e k0 = Inr (gAll, gUnowned, gIndefinite)"
  note s = collect_samples(2-4) [OF c]
  show "gauge_samples gAll
        = map (\<lambda>(labels, hasTimeout, hasOwner). (labels, 1)) (yielded (checkAllResources e k0))"
    by (rule s(1))
  show "gauge_samples gUnowned
        = map (\<lambda>(labels, hasTimeout, hasOwner). (labels, if hasOwner then 0 else 1))
            (yielded (checkAllResources e k0))"
    by (rule s(2))
  show "gauge_samples gIndefinite
        = map (\<lambda>(labels, hasTimeout, hasOwner). (labels, if hasTimeout then 0 else 1))
            (yielded (checkAllResources e k0))"
    by (rule s(3))
  show "map fst (gauge_samples gUnowned) = map fst (gauge_samples gAll)"
    unfolding s by (simp add: case_prod_beta comp_def)
  show "map fst (gauge_samples gIndefinite) = map fst (gauge_samples gAll)"
    unfolding s by (simp add: case_prod_beta comp_def)
  show "\<forall>(labels, hasTimeout, hasOwner) \<in> set (yielded (checkAllResources e k0)).
           \<exists>(g, v, p, kd, nsd, m') \<in> set (getAllResources e).
              (hasOwner \<longleftrightarrow> get_annotations m' SUSPENDED_BY_ANNOTATION \<noteq> None)
              \<and> (hasTimeout \<longleftrightarrow>
                   (\<exists>timeout parsed. get_annotations m' SUSPEND_UNTIL_ANNOTATION = Some timeout
                      \<and> isoparse e timeout = Inr parsed))
              \<and> (\<exists>ns'. get_namespace nsd m' = Inr ns'
                     \<and> labels = [g @ ''/'' @ v, kd, ns', meta_name m'])"
  proof (intro ballI, clarify)
    fix labels hasTimeout hasOwner
    assume x: "(labels, hasTimeout, hasOwner) \<in> set (yielded (checkAllResources e k0))"
    from sweep_yielded_from [OF x] obtain t k' where
      t: "t \<in> set (getAllResources e)"
      and y: "case t of (g, v, p, kd, nsd, m') \<Rightarrow>
                (labels, hasTimeout, hasOwner) \<in> set (yielded (check_resource e g v p kd nsd m' k'))"
      by (auto split: prod.splits)
    obtain g v p kd nsd m' where t_eq: "t = (g, v, p, kd, nsd, m')" by (cases t) auto
    from y t_eq have y':
      "(labels, hasTimeout, hasOwner) \<in> set (yielded (check_resource e g v p kd nsd m' k'))"
      by simp
    from check_resource_yield(2,3) [OF y'] check_resource_hasTimeout [OF y'] t t_eq
    show "\<exists>(g, v, p, kd, nsd, m') \<in> set (getAllResources e).
              (hasOwner \<longleftrightarrow> get_annotations m' SUSPENDED_BY_ANNOTATION \<noteq> None)
              \<and> (hasTimeout \<longleftrightarrow>
                   (\<exists>timeout parsed. get_annotations m' SUSPEND_UNTIL_ANNOTATION = Some timeout
                      \<and> isoparse e timeout = Inr parsed))
              \<and> (\<exists>ns'. get_namespace nsd m' = Inr ns'
                     \<and> labels = [g @ ''/'' @ v, kd, ns', meta_name m'])"
      by (intro bexI [of _ t]) auto
  qed
next
  assume a: "get_annotations m RECONCILE_ANNOTATION = Some ''disabled''
       \<and> get_namespace namespaced m = Inr ns
       \<and> get_annotations m SUSPEND_UNTIL_ANNOTATION = Some timeout
       \<and> isoparse e timeout = Inr (Naive d) \<and> now e k \<le> d
       \<and> get_annotations m SUSPENDED_BY_ANNOTATION = None
       \<and> add_metrics getGauges (yielded (check_resource e grp version plural kind namespaced m k))
           = (gA, gU, gI)"
  then have lt: "dt_less (Naive d) (Naive (now e k)) = Inr False" by simp
  from a have r: "check_resource e grp version plural kind namespaced m k =
     \<lparr>clock_reads = Suc k,
      effects =
        [Log Debug (''Resource '' @ resourceName grp version ns (meta_name m) @ '' is suspended'')],
      yielded = [([grp @ ''/'' @ version, kind, ns, meta_name m], True,
                  get_annotations m SUSPENDED_BY_ANNOTATION \<noteq> None)],
      raised = None\<rparr>"
    using check_resource_not_timed_out [OF _ _ _ _ lt, of m namespaced ns timeout grp version plural kind]
    by simp
  from r a show y: "yielded (check_resource e grp version plural kind namespaced m k)
           = [([grp @ ''/'' @ version, kind, ns, meta_name m], True, False)]"
    by simp
  from r show "raised (check_resource e grp version plural kind namespaced m k) = None"
    by simp
  from a y have g: "add_metrics getGauges [([grp @ ''/'' @ version, kind, ns, meta_name m], True, False)]
      = (gA, gU, gI)" by simp
  from g show "gauge_samples gA = [([grp @ ''/'' @ version, kind, ns, meta_name m], 1)]"
    by (auto simp: getGauges_def add_metric_def)
  from g show "gauge_samples gU = [([grp @ ''/'' @ version, kind, ns, meta_name m], 1)]"
    by (auto simp: getGauges_def add_metric_def)
  from g show "gauge_samples gI = [([grp @ ''/'' @ version, kind, ns, meta_name m], 0)]"
    by (auto simp: getGauges_def add_metric_def)
qed

text \<open>
  C7. The source means to compare the suspend-until with the current time and to report a
  resource whose suspension has not timed out. \<^verbatim>\<open>isoparse\<close> reads a timestamp written
  with a UTC offset as an aware timestamp, \<^verbatim>\<open>datetime.now()\<close> is naive, and the
  comparison of the two raises \<^verbatim>\<open>TypeError\<close>, which the \<^verbatim>\<open>except\<close> clause does not
  catch. On the small cluster with a resource that has the value \<^verbatim>\<open>disabled\<close>, the
  future suspend-until \<^verbatim>\<open>2030-01-01T00:00:00Z\<close> and no suspended-by key, the loop body
  raises \<^verbatim>\<open>TypeError\<close>: the run yields no element and the collection returns the
  exception and no gauge, where the values 1, 1 and 0 were to be reported.
\<close>

theorem offset_timestamp_no_gauges:
  "(''apps'', ''v1'', ''helmreleases'', ''HelmRelease'', True, res_future_aware)
     \<in> set (getAllResources (demo_env [res_future_aware] 200))
   \<and> get_annotations res_future_aware RECONCILE_ANNOTATION = Some ''disabled''
   \<and> get_annotations res_future_aware SUSPENDED_BY_ANNOTATION = None
   \<and> get_annotations res_future_aware SUSPEND_UNTIL_ANNOTATION = Some ''2030-01-01T00:00:00Z''
   \<and> isoparse (demo_env [res_future_aware] 200) ''2030-01-01T00:00:00Z'' = Inr (Aware 1893456000)
   \<and> now (demo_env [res_future_aware] 200) 0 < 1893456000
   \<and> raised (check_resource (demo_env [res_future_aware] 200)
               ''apps'' ''v1'' ''helmreleases'' ''HelmRelease'' True res_future_aware 0)
       = Some TypeError
   \<and> yielded (checkAllResources (demo_env [res_future_aware] 200) 0) = []
   \<and> collect (demo_env [res_future_aware] 200) 0 = Inl TypeError"
  by (simp add: collect_def demo_defs listing_defs)

theorem gauge_values_witness:
  "collect (demo_env [res_indefinite, res_future] 200) 0
     = Inr (add_metrics getGauges
              [([''apps/v1'', ''HelmRelease'', ''apps'', ''myapp''], False, False),
               ([''apps/v1'', ''HelmRelease'', ''apps'', ''future''], True, False)])
   \<and> isoparse (demo_env [res_indefinite, res_future] 200) ''2030-01-01T00:00:00''
       = Inr (Naive 1893456000)
   \<and> now (demo_env [res_indefinite, res_future] 200) 0 \<le> 1893456000
   \<and> (\<exists>gAll gUnowned gIndefinite.
        collect (demo_env [res_indefinite, res_future] 200) 0 = Inr (gAll, gUnowned, gIndefinite)
        \<and> gauge_samples gAll
            = [([''apps/v1'', ''HelmRelease'', ''apps'', ''myapp''], 1),
               ([''apps/v1'', ''HelmRelease'', ''apps'', ''future''], 1)]
        \<and> gauge_samples gUnowned
            = [([''apps/v1'', ''HelmRelease'', ''apps'', ''myapp''], 1),
               ([''apps/v1'', ''HelmRelease'', ''apps'', ''future''], 1)]
        \<and> gauge_samples gIndefinite
            = [([''apps/v1'', ''HelmRelease'', ''apps'', ''myapp''], 1),
               ([''apps/v1'', ''HelmRelease'', ''apps'', ''future''], 0)])
   \<and> yielded (check_resource (demo_env [res_indefinite, res_future] 200)
                ''apps'' ''v1'' ''helmreleases'' ''HelmRelease'' True res_future 0)
       = [([''apps/v1'', ''HelmRelease'', ''apps'', ''future''], True, False)]"
proof -
  let ?e = "demo_env [res_indefinite, res_future] 200"
  let ?ys = "[([''apps/v1'', ''HelmRelease'', ''apps'', ''myapp''], False, False),
              ([''apps/v1'', ''HelmRelease'', ''apps'', ''future''], True, False)]"
  have y: "yielded (checkAllResources ?e 0) = ?ys"
    by (simp add: demo_defs)
  have r: "raised (checkAllResources ?e 0) = None"
    by (simp add: demo_defs)
  have c: "collect ?e 0 = Inr (add_metrics getGauges ?ys)"
    using y r by (simp add: collect_def Let_def)
  obtain gAll gUnowned gIndefinite where
    g: "add_metrics getGauges ?ys = (gAll, gUnowned, gIndefinite)"
    by (rule prod_cases3)
  have cg: "collect ?e 0 = Inr (gAll, gUnowned, gIndefinite)"
    using c g by simp
  obtain gA gU gI where
    g': "add_metrics getGauges (yielded (check_resource ?e ''apps'' ''v1'' ''helmreleases''
            ''HelmRelease'' True res_future 0)) = (gA, gU, gI)"
    by (rule prod_cases3)
  have p1: "get_annotations res_future RECONCILE_ANNOTATION = Some ''disabled''"
    and p2: "get_namespace True res_future = Inr ''apps''"
    and p3: "get_annotations res_future SUSPEND_UNTIL_ANNOTATION = Some ''2030-01-01T00:00:00''"
    and p4: "isoparse ?e ''2030-01-01T00:00:00'' = Inr (Naive 1893456000)"
    and p5: "now ?e 0 \<le> 1893456000"
    and p6: "get_annotations res_future SUSPENDED_BY_ANNOTATION = None"
    by (simp_all add: demo_defs)
  note T = gauge_values [where e = ?e and ?k0.0 = 0 and gAll = gAll and gUnowned = gUnowned
      and gIndefinite = gIndefinite and m = res_future and namespaced = True
      and ns = "''apps''" and timeout = "''2030-01-01T00:00:00''" and d = 1893456000
      and k = 0 and grp = "''apps''" and version = "''v1''" and plural = "''helmreleases''"
      and kind = "''HelmRelease''" and gA = gA and gU = gU and gI = gI]
  note A = T [THEN conjunct1, THEN mp, OF cg]
  have s1: "gauge_samples gAll
            = [([''apps/v1'', ''HelmRelease'', ''apps'', ''myapp''], 1),
               ([''apps/v1'', ''HelmRelease'', ''apps'', ''future''], 1)]"
    using A [THEN conjunct1] unfolding y by simp
  have s2: "gauge_samples gUnowned
            = [([''apps/v1'', ''HelmRelease'', ''apps'', ''myapp''], 1),
               ([''apps/v1'', ''HelmRelease'', ''apps'', ''future''], 1)]"
    using A [THEN conjunct2, THEN conjunct1] unfolding y by simp
  have s3: "gauge_samples gIndefinite
            = [([''apps/v1'', ''HelmRelease'', ''apps'', ''myapp''], 1),
               ([''apps/v1'', ''HelmRelease'', ''apps'', ''future''], 0)]"
    using A [THEN conjunct2, THEN conjunct2, THEN conjunct1] unfolding y by simp
  have prem: "get_annotations res_future RECONCILE_ANNOTATION = Some ''disabled''
       \<and> get_namespace True res_future = Inr ''apps''
       \<and> get_annotations res_future SUSPEND_UNTIL_ANNOTATION = Some ''2030-01-01T00:00:00''
       \<and> isoparse ?e ''2030-01-01T00:00:00'' = Inr (Naive 1893456000) \<and> now ?e 0 \<le> 1893456000
       \<and> get_annotations res_future SUSPENDED_BY_ANNOTATION = None
       \<and> add_metrics getGauges (yielded (check_resource ?e ''apps'' ''v1'' ''helmreleases''
            ''HelmRelease'' True res_future 0)) = (gA, gU, gI)"
    by (intro conjI p1 p2 p3 p4 p5 p6 g')
  note B = T [THEN conjunct2, THEN mp, OF prem]
  have m: "meta_name res_future = ''future''"
    by (simp add: res_future_def annotated_def)
  have b: "yielded (check_resource ?e ''apps'' ''v1'' ''helmreleases'' ''HelmRelease'' True
             res_future 0) = [([''apps/v1'', ''HelmRelease'', ''apps'', ''future''], True, False)]"
    using B [THEN conjunct1] unfolding m by simp
  show ?thesis
    by (intro conjI exI [of _ gAll] exI [of _ gUnowned] exI [of _ gIndefinite])
       (rule c p4 p5 cg s1 s2 s3 b)+
qed

section \<open>The namespace of a resource\<close>

text \<open>
  C10. For a resource of a namespaced kind the loop body reads \<^verbatim>\<open>meta['namespace']\<close>
  before anything else: when the metadata has no namespace it raises \<^verbatim>\<open>KeyError\<close>,
  whatever the annotations are, and a run that lists such a resource under a namespaced
  kind raises: the collection returns no gauge. For a kind that is not namespaced the
  namespace label of every element yielded is the empty string.
\<close>

theorem namespace_lookup:
  "(meta_namespace m = None \<longrightarrow>
      check_resource e grp version plural kind True m k
        = \<lparr>clock_reads = k, effects = [], yielded = [],
           raised = Some (KeyError ''namespace'')\<rparr>)
   \<and> ((grp, version, plural, kind, True, m) \<in> set (getAllResources e)
        \<and> meta_namespace m = None \<longrightarrow>
          raised (checkAllResources e k0) \<noteq> None \<and> (\<exists>err. collect e k0 = Inl err))
   \<and> (\<forall>x \<in> set (yielded (check_resource e grp version plural kind False m k)).
          fst x = [grp @ ''/'' @ version, kind, [], meta_name m])"
proof (intro conjI impI ballI)
  assume "meta_namespace m = None"
  then have "get_namespace True m = Inl (KeyError ''namespace'')"
    by (simp add: get_namespace_def)
  then show "check_resource e grp version plural kind True m k
        = \<lparr>clock_reads = k, effects = [], yielded = [],
           raised = Some (KeyError ''namespace'')\<rparr>"
    by (rule check_resource_namespace_raises)
next
  assume a: "(grp, version, plural, kind, True, m) \<in> set (getAllResources e)
        \<and> meta_namespace m = None"
  then have n: "get_namespace True m = Inl (KeyError ''namespace'')"
    by (simp add: get_namespace_def)
  show r: "raised (checkAllResources e k0) \<noteq> None"
  proof
    assume "raised (checkAllResources e k0) = None"
    from sweep_covers [OF this] a obtain k' where
      "raised (check_resource e grp version plural kind True m k') = None" by blast
    then show False by (simp add: check_resource_namespace_raises [OF n])
  qed
  then show "\<exists>err. collect e k0 = Inl err"
    by (auto simp: collect_def Let_def)
next
  fix x
  assume "x \<in> set (yielded (check_resource e grp version plural kind False m k))"
  from check_resource_yield(2) [OF this]
  show "fst x = [grp @ ''/'' @ version, kind, [], meta_name m]"
    by (simp add: get_namespace_def)
qed

theorem namespace_lookup_witness:
  "(''apps'', ''v1'', ''helmreleases'', ''HelmRelease'', True, res_no_namespace)
     \<in> set (getAllResources (demo_env [res_indefinite, res_no_namespace] 200))
   \<and> meta_namespace res_no_namespace = None
   \<and> check_resource (demo_env [res_indefinite, res_no_namespace] 200)
        ''apps'' ''v1'' ''helmreleases'' ''HelmRelease'' True res_no_namespace 0
       = \<lparr>clock_reads = 0, effects = [], yielded = [], raised = Some (KeyError ''namespace'')\<rparr>
   \<and> collect (demo_env [res_indefinite, res_no_namespace] 200) 0 = Inl (KeyError ''namespace'')
   \<and> yielded (check_resource (demo_env [res_indefinite, res_no_namespace] 200)
                ''apps'' ''v1'' ''helmreleases'' ''HelmRelease'' False res_indefinite 0)
       = [([''apps/v1'', ''HelmRelease'', [], ''myapp''], False, False)]"
proof -
  let ?e = "demo_env [res_indefinite, res_no_namespace] 200"
  have l: "(''apps'', ''v1'', ''helmreleases'', ''HelmRelease'', True, res_no_namespace)
     \<in> set (getAllResources ?e)"
    by (simp add: demo_defs listing_defs)
  have n: "meta_namespace res_no_namespace = None"
    by (simp add: res_no_namespace_def)
  have c: "collect ?e 0 = Inl (KeyError ''namespace'')"
    by (simp add: collect_def demo_defs)
  have y: "yielded (check_resource ?e ''apps'' ''v1'' ''helmreleases'' ''HelmRelease'' False
             res_indefinite 0) = [([''apps/v1'', ''HelmRelease'', [], ''myapp''], False, False)]"
    by (simp add: demo_defs)
  note T = namespace_lookup [where m = res_no_namespace and e = ?e and grp = "''apps''"
      and version = "''v1''" and plural = "''helmreleases''" and kind = "''HelmRelease''"
      and k = 0 and ?k0.0 = 0]
  note b = T [THEN conjunct1, THEN mp, OF n]
  note s = T [THEN conjunct2, THEN conjunct1, THEN mp, OF conjI [OF l n]]
  show ?thesis
    using s by (intro conjI l n b c y)
qed

section \<open>Suspensions that have timed out\<close>

text \<open>
  On a resource with the value \<^verbatim>\<open>disabled\<close> and a suspend-until that
  \<^verbatim>\<open>isoparse\<close> reads as a naive timestamp strictly before the clock reading, the loop
  body logs two records, makes exactly one call, the removal patch on the endpoint of the
  resource, and yields nothing. The patch names the reconcile key, the suspend-until key,
  and the suspended-by key if and only if the resource has it, each as one
  \<^verbatim>\<open>remove\<close> operation on its escaped path. In a run that does not raise, the call of
  every such listed resource is among the effects, answered with status 200; and every
  removal call of any run is the call of a listed resource with the value
  \<^verbatim>\<open>disabled\<close> whose suspend-until was read and found before a clock reading.
\<close>

theorem timed_out_removal:
  "(get_annotations m RECONCILE_ANNOTATION = Some ''disabled''
    \<and> get_namespace namespaced m = Inr ns
    \<and> get_annotations m SUSPEND_UNTIL_ANNOTATION = Some timeout
    \<and> isoparse e timeout = Inr (Naive d) \<and> d < now e k \<longrightarrow>
      effects (check_resource e grp version plural kind namespaced m k)
        = [Log Debug (''Resource '' @ resourceName grp version ns (meta_name m) @ '' is suspended''),
           Log Info (''Removing suspend annotations from ''
                     @ resourceName grp version ns (meta_name m)),
           Patch (patch_endpoint grp version plural ns (meta_name m))
             (patch_body (removeAnnotations (get_annotations m SUSPENDED_BY_ANNOTATION \<noteq> None)))
             (api_patch e (patch_endpoint grp version plural ns (meta_name m))
                (patch_body (removeAnnotations
                   (get_annotations m SUSPENDED_BY_ANNOTATION \<noteq> None))))]
      \<and> yielded (check_resource e grp version plural kind namespaced m k) = [])
   \<and> set (removeAnnotations hasOwner)
       = {RECONCILE_ANNOTATION, SUSPEND_UNTIL_ANNOTATION}
         \<union> (if hasOwner then {SUSPENDED_BY_ANNOTATION} else {})
   \<and> map path (patch_body (removeAnnotations hasOwner))
       = map (\<lambda>a. ''/metadata/annotations/'' @ escape a) (removeAnnotations hasOwner)
   \<and> map op (patch_body (removeAnnotations hasOwner))
       = map (\<lambda>a. ''remove'') (removeAnnotations hasOwner)
   \<and> (raised (checkAllResources e k0) = None
       \<and> (grp, version, plural, kind, namespaced, m) \<in> set (getAllResources e)
       \<and> get_annotations m RECONCILE_ANNOTATION = Some ''disabled''
       \<and> get_namespace namespaced m = Inr ns
       \<and> get_annotations m SUSPEND_UNTIL_ANNOTATION = Some timeout
       \<and> isoparse e timeout = Inr (Naive d) \<and> (\<forall>k'. d < now e k') \<longrightarrow>
         Patch (patch_endpoint grp version plural ns (meta_name m))
           (patch_body (removeAnnotations (get_annotations m SUSPENDED_BY_ANNOTATION \<noteq> None)))
           (Inr 200)
         \<in> set (effects (checkAllResources e k0)))
   \<and> (Patch endpoint body answer \<in> set (effects (checkAllResources e k0)) \<longrightarrow>
        (\<exists>(g, v, p, kd, nsd, m') \<in> set (getAllResources e).
           get_annotations m' RECONCILE_ANNOTATION = Some ''disabled''
           \<and> (\<exists>ns'. get_namespace nsd m' = Inr ns'
                  \<and> endpoint = patch_endpoint g v p ns' (meta_name m'))
           \<and> body = patch_body (removeAnnotations
                       (get_annotations m' SUSPENDED_BY_ANNOTATION \<noteq> None))
           \<and> (\<exists>timeout' parsed k'.
                  get_annotations m' SUSPEND_UNTIL_ANNOTATION = Some timeout'
                  \<and> isoparse e timeout' = Inr parsed
                  \<and> dt_less parsed (Naive (now e k')) = Inr True)))"
proof (intro conjI impI)
  assume a: "get_annotations m RECONCILE_ANNOTATION = Some ''disabled''
    \<and> get_namespace namespaced m = Inr ns
    \<and> get_annotations m SUSPEND_UNTIL_ANNOTATION = Some timeout
    \<and> isoparse e timeout = Inr (Naive d) \<and> d < now e k"
  then have lt: "dt_less (Naive d) (Naive (now e k)) = Inr True" by simp
  note r = check_resource_timed_out [OF _ _ _ _ lt, of m namespaced ns timeout grp version plural kind]
  from a r show "effects (check_resource e grp version plural kind namespaced m k)
        = [Log Debug (''Resource '' @ resourceName grp version ns (meta_name m) @ '' is suspended''),
           Log Info (''Removing suspend annotations from ''
                     @ resourceName grp version ns (meta_name m)),
           Patch (patch_endpoint grp version plural ns (meta_name m))
             (patch_body (removeAnnotations (get_annotations m SUSPENDED_BY_ANNOTATION \<noteq> None)))
             (api_patch e (patch_endpoint grp version plural ns (meta_name m))
                (patch_body (removeAnnotations
                   (get_annotations m SUSPENDED_BY_ANNOTATION \<noteq> None))))]"
    by simp
  from a r show "yielded (check_resource e grp version plural kind namespaced m k) = []"
    by simp
next
  show "set (removeAnnotations hasOwner)
       = {RECONCILE_ANNOTATION, SUSPEND_UNTIL_ANNOTATION}
         \<union> (if hasOwner then {SUSPENDED_BY_ANNOTATION} else {})"
    by (simp add: removeAnnotations_def)
  show "map path (patch_body (removeAnnotations hasOwner))
       = map (\<lambda>a. ''/metadata/annotations/'' @ escape a) (removeAnnotations hasOwner)"
    by (simp add: patch_body_def comp_def)
  show "map op (patch_body (removeAnnotations hasOwner))
       = map (\<lambda>a. ''remove'') (removeAnnotations hasOwner)"
    by (simp add: patch_body_def comp_def)
next
  assume a: "raised (checkAllResources e k0) = None
       \<and> (grp, version, plural, kind, namespaced, m) \<in> set (getAllResources e)
       \<and> get_annotations m RECONCILE_ANNOTATION = Some ''disabled''
       \<and> get_namespace namespaced m = Inr ns
       \<and> get_annotations m SUSPEND_UNTIL_ANNOTATION = Some timeout
       \<and> isoparse e timeout = Inr (Naive d) \<and> (\<forall>k'. d < now e k')"
  let ?ep = "patch_endpoint grp version plural ns (meta_name m)"
  let ?body = "patch_body (removeAnnotations (get_annotations m SUSPENDED_BY_ANNOTATION \<noteq> None))"
  from a sweep_covers [of e k0 grp version plural kind namespaced m] obtain k' where
    k': "raised (check_resource e grp version plural kind namespaced m k') = None"
    "set (effects (check_resource e grp version plural kind namespaced m k'))
       \<subseteq> set (effects (checkAllResources e k0))"
    by blast
  from a have lt: "dt_less (Naive d) (Naive (now e k')) = Inr True" by simp
  note r = check_resource_timed_out [OF _ _ _ _ lt, of m namespaced ns timeout grp version plural kind]
  from a r have r': "raised (check_resource e grp version plural kind namespaced m k')
      = (case api_patch e ?ep ?body of Inl err \<Rightarrow> Some err
         | Inr status \<Rightarrow> if status = 200 then None else Some AssertionError)"
    and e': "Patch ?ep ?body (api_patch e ?ep ?body)
      \<in> set (effects (check_resource e grp version plural kind namespaced m k'))"
    by simp_all
  from k'(1) r' have "api_patch e ?ep ?body = Inr 200"
    by (auto split: sum.splits if_splits)
  with e' k'(2) show "Patch ?ep ?body (Inr 200) \<in> set (effects (checkAllResources e k0))"
    by auto
next
  assume p: "Patch endpoint body answer \<in> set (effects (checkAllResources e k0))"
  have "\<not> is_get (Patch endpoint body answer)" by simp
  from sweep_effects_from [OF p this] obtain t k' where
    t: "t \<in> set (getAllResources e)"
    and y: "case t of (g, v, p, kd, nsd, m') \<Rightarrow>
              Patch endpoint body answer \<in> set (effects (check_resource e g v p kd nsd m' k'))"
    by (auto split: prod.splits)
  obtain g v p kd nsd m' where t_eq: "t = (g, v, p, kd, nsd, m')" by (cases t) auto
  from y t_eq have y':
    "Patch endpoint body answer \<in> set (effects (check_resource e g v p kd nsd m' k'))" by simp
  from check_resource_patch_from(1,2,4,5) [OF y'] t t_eq
  show "\<exists>(g, v, p, kd, nsd, m') \<in> set (getAllResources e).
           get_annotations m' RECONCILE_ANNOTATION = Some ''disabled''
           \<and> (\<exists>ns'. get_namespace nsd m' = Inr ns'
                  \<and> endpoint = patch_endpoint g v p ns' (meta_name m'))
           \<and> body = patch_body (removeAnnotations
                       (get_annotations m' SUSPENDED_BY_ANNOTATION \<noteq> None))
           \<and> (\<exists>timeout' parsed k'.
                  get_annotations m' SUSPEND_UNTIL_ANNOTATION = Some timeout'
                  \<and> isoparse e timeout' = Inr parsed
                  \<and> dt_less parsed (Naive (now e k')) = Inr True)"
    by (intro bexI [of _ t]) auto
qed

text \<open>
  C2. The source means to remove the suspension of a resource whose suspend-until is past.
  \<^verbatim>\<open>isoparse\<close> reads a timestamp written with a UTC offset as an aware timestamp,
  \<^verbatim>\<open>datetime.now()\<close> is naive, and the comparison of the two raises \<^verbatim>\<open>TypeError\<close>,
  which the \<^verbatim>\<open>except\<close> clause does not catch. On the small cluster with a resource
  that has the value \<^verbatim>\<open>disabled\<close> and the past suspend-until
  \<^verbatim>\<open>2024-01-01T00:00:00Z\<close>, the run logs that the resource is suspended and then
  raises \<^verbatim>\<open>TypeError\<close>: no removal call is made, and the collection returns the
  exception and no gauge.
\<close>

theorem offset_timestamp_no_removal:
  "(''apps'', ''v1'', ''helmreleases'', ''HelmRelease'', True, res_expired_aware)
     \<in> set (getAllResources (demo_env [res_expired_aware] 200))
   \<and> get_annotations res_expired_aware RECONCILE_ANNOTATION = Some ''disabled''
   \<and> get_annotations res_expired_aware SUSPEND_UNTIL_ANNOTATION = Some ''2024-01-01T00:00:00Z''
   \<and> isoparse (demo_env [res_expired_aware] 200) ''2024-01-01T00:00:00Z'' = Inr (Aware 1704067200)
   \<and> 1704067200 < now (demo_env [res_expired_aware] 200) 0
   \<and> checkAllResources (demo_env [res_expired_aware] 200) 0
       = \<lparr>clock_reads = 1,
          effects =
            [GetKinds ''/api/v1'' (Inr 200), GetItems ''/api/v1/nodes'' (Inr 200),
             GetGroups, GetKinds ''/apis/apps/v1'' (Inr 200),
             GetItems ''/apis/apps/v1/helmreleases'' (Inr 200),
             Log Debug ''Resource apps/v1 apps/expired-utc is suspended''],
          yielded = [], raised = Some TypeError\<rparr>
   \<and> collect (demo_env [res_expired_aware] 200) 0 = Inl TypeError"
  by (simp add: collect_def demo_defs listing_defs)

theorem timed_out_removal_witness:
  "raised (checkAllResources (demo_env [res_active, res_indefinite, res_expired, res_future] 200) 0)
     = None
   \<and> (''apps'', ''v1'', ''helmreleases'', ''HelmRelease'', True, res_expired)
       \<in> set (getAllResources (demo_env [res_active, res_indefinite, res_expired, res_future] 200))
   \<and> get_annotations res_expired RECONCILE_ANNOTATION = Some ''disabled''
   \<and> get_annotations res_expired SUSPEND_UNTIL_ANNOTATION = Some ''2024-01-01T00:00:00''
   \<and> isoparse (demo_env [res_active, res_indefinite, res_expired, res_future] 200)
         ''2024-01-01T00:00:00'' = Inr (Naive 1704067200)
   \<and> (\<forall>k'. 1704067200
          < now (demo_env [res_active, res_indefinite, res_expired, res_future] 200) k')
   \<and> Patch ''/apis/apps/v1/namespaces/apps/helmreleases/expired''
        [\<lparr>op = ''remove'',
           path = ''/metadata/annotations/kustomize.toolkit.fluxcd.io~1reconcile''\<rparr>,
         \<lparr>op = ''remove'',
           path = ''/metadata/annotations/flux.b2.genesiscloud.dev~1suspend-until''\<rparr>,
         \<lparr>op = ''remove'',
           path = ''/metadata/annotations/flux.b2.genesiscloud.dev~1suspended-by''\<rparr>]
        (Inr 200)
       \<in> set (effects (checkAllResources
                 (demo_env [res_active, res_indefinite, res_expired, res_future] 200) 0))
   \<and> yielded (check_resource (demo_env [res_active, res_indefinite, res_expired, res_future] 200)
                ''apps'' ''v1'' ''helmreleases'' ''HelmRelease'' True res_expired 0) = []"
proof -
  let ?e = "demo_env [res_active, res_indefinite, res_expired, res_future] 200"
  have r: "raised (checkAllResources ?e 0) = None"
    by (simp add: demo_defs)
  have l: "(''apps'', ''v1'', ''helmreleases'', ''HelmRelease'', True, res_expired)
       \<in> set (getAllResources ?e)"
    by (simp add: demo_defs listing_defs)
  have p1: "get_annotations res_expired RECONCILE_ANNOTATION = Some ''disabled''"
    and p2: "get_namespace True res_expired = Inr ''apps''"
    and p3: "get_annotations res_expired SUSPEND_UNTIL_ANNOTATION = Some ''2024-01-01T00:00:00''"
    and p4: "isoparse ?e ''2024-01-01T00:00:00'' = Inr (Naive 1704067200)"
    and p5: "\<forall>k'. 1704067200 < now ?e k'"
    and p6: "1704067200 < now ?e 0"
    by (simp_all add: demo_defs)
  have o: "get_annotations res_expired SUSPENDED_BY_ANNOTATION \<noteq> None"
    by (simp add: demo_defs)
  have ep: "patch_endpoint ''apps'' ''v1'' ''helmreleases'' ''apps'' (meta_name res_expired)
            = ''/apis/apps/v1/namespaces/apps/helmreleases/expired''"
    by (simp add: demo_defs)
  have bd: "patch_body (removeAnnotations True)
            = [\<lparr>op = ''remove'',
                 path = ''/metadata/annotations/kustomize.toolkit.fluxcd.io~1reconcile''\<rparr>,
               \<lparr>op = ''remove'',
                 path = ''/metadata/annotations/flux.b2.genesiscloud.dev~1suspend-until''\<rparr>,
               \<lparr>op = ''remove'',
                 path = ''/metadata/annotations/flux.b2.genesiscloud.dev~1suspended-by''\<rparr>]"
    by (simp add: demo_defs)
  note T = timed_out_removal [where m = res_expired and namespaced = True and ns = "''apps''"
      and timeout = "''2024-01-01T00:00:00''" and e = ?e and d = 1704067200 and k = 0
      and grp = "''apps''" and version = "''v1''" and plural = "''helmreleases''"
      and kind = "''HelmRelease''" and ?k0.0 = 0]
  note B = T [THEN conjunct1, THEN mp, OF conjI [OF p1 conjI [OF p2 conjI [OF p3 conjI [OF p4 p6]]]]]
  note S = T [THEN conjunct2, THEN conjunct2, THEN conjunct2, THEN conjunct2, THEN conjunct1,
      THEN mp,
      OF conjI [OF r conjI [OF l conjI [OF p1 conjI [OF p2 conjI [OF p3 conjI [OF p4 p5]]]]]]]
  have s: "Patch ''/apis/apps/v1/namespaces/apps/helmreleases/expired''
        [\<lparr>op = ''remove'',
           path = ''/metadata/annotations/kustomize.toolkit.fluxcd.io~1reconcile''\<rparr>,
         \<lparr>op = ''remove'',
           path = ''/metadata/annotations/flux.b2.genesiscloud.dev~1suspend-until''\<rparr>,
         \<lparr>op = ''remove'',
           path = ''/metadata/annotations/flux.b2.genesiscloud.dev~1suspended-by''\<rparr>]
        (Inr 200) \<in> set (effects (checkAllResources ?e 0))"
    using S o unfolding ep by (simp add: bd)
  show ?thesis
    by (intro conjI r l p1 p3 p4 p5 s B [THEN conjunct2])
qed

section \<open>Timestamps that cannot be read\<close>

text \<open>
  C3. The source means to treat a suspend-until that cannot be read as absent, with an
  error record. Its \<^verbatim>\<open>except\<close> clause catches \<^verbatim>\<open>dateutil.parser.ParserError\<close>, but
  \<^verbatim>\<open>isoparse\<close> raises \<^verbatim>\<open>ValueError\<close> on such a value, of which \<open>ParserError\<close> is
  a subclass: the exception is not caught. On the small cluster with a resource whose
  suspend-until is \<^verbatim>\<open>tomorrow\<close>, the run logs that the resource is suspended and then
  raises \<^verbatim>\<open>ValueError\<close>: no error record, no element for this resource or for the
  one after it, and no gauge.
\<close>

theorem malformed_timestamp_raises:
  "(''apps'', ''v1'', ''helmreleases'', ''HelmRelease'', True, res_malformed)
     \<in> set (getAllResources (demo_env [res_malformed, res_indefinite] 200))
   \<and> get_annotations res_malformed RECONCILE_ANNOTATION = Some ''disabled''
   \<and> get_annotations res_malformed SUSPEND_UNTIL_ANNOTATION = Some ''tomorrow''
   \<and> isoparse (demo_env [res_malformed, res_indefinite] 200) ''tomorrow'' = Inl ValueError
   \<and> checkAllResources (demo_env [res_malformed, res_indefinite] 200) 0
       = \<lparr>clock_reads = 0,
          effects =
            [GetKinds ''/api/v1'' (Inr 200), GetItems ''/api/v1/nodes'' (Inr 200),
             GetGroups, GetKinds ''/apis/apps/v1'' (Inr 200),
             GetItems ''/apis/apps/v1/helmreleases'' (Inr 200),
             Log Debug ''Resource apps/v1 apps/malformed is suspended''],
          yielded = [], raised = Some ValueError\<rparr>
   \<and> collect (demo_env [res_malformed, res_indefinite] 200) 0 = Inl ValueError"
  by (simp add: collect_def demo_defs listing_defs)

section \<open>Calls that fail\<close>

lemma stops_at_failure_then_run:
  assumes a: "stops_at_failure a" and b: "stops_at_failure (f (clock_reads a))"
  shows "stops_at_failure (then_run a f)"
proof (cases "raised a")
  case (Some err)
  with a show ?thesis by (simp add: then_run_raised_Some)
next
  case None
  let ?b = "f (clock_reads a)"
  from a None have ok: "\<forall>ev \<in> set (effects a). error_of ev = None"
    by (auto simp: stops_at_failure_def)
  have eff: "effects (then_run a f) = effects a @ effects ?b"
    and rs: "raised (then_run a f) = raised ?b"
    using None by (simp_all add: then_run_sel)
  have bl: "set (butlast (effects a @ effects ?b)) \<subseteq> set (effects a) \<union> set (butlast (effects ?b))"
    by (auto simp: butlast_append dest: in_set_butlastD)
  show ?thesis
    unfolding stops_at_failure_def eff rs
    using ok b bl by (auto simp: stops_at_failure_def)
qed

lemma stops_at_failure_skip: "stops_at_failure (skip k)"
  by (simp add: stops_at_failure_def)

lemma stops_at_failure_for_each:
  assumes "\<And>x k. stops_at_failure (body x k)"
  shows "stops_at_failure (for_each body xs k)"
proof (induction xs arbitrary: k)
  case Nil
  show ?case by (simp add: stops_at_failure_skip)
next
  case (Cons x xs)
  show ?case
    by (simp add: stops_at_failure_then_run assms Cons.IH)
qed

lemma stops_at_failure_check_resource:
  "stops_at_failure (check_resource e grp version plural kind namespaced m k)"
  by (auto simp: stops_at_failure_def check_resource_def removeResourceAnnotation_def Let_def
      split: sum.splits option.splits if_splits)

lemma stops_at_failure_call:
  "error_of ev = err \<Longrightarrow>
   stops_at_failure \<lparr>clock_reads = k, effects = [ev], yielded = [], raised = err\<rparr>"
  by (auto simp: stops_at_failure_def)

lemma stops_at_failure_check_kind: "stops_at_failure (check_kind e grp version t k)"
proof -
  obtain plural kind verbs namespaced where t: "t = (plural, kind, verbs, namespaced)"
    by (cases t) auto
  show ?thesis
  proof (cases "verbs = [] \<or> ''list'' \<notin> set verbs")
    case True
    then show ?thesis by (auto simp: t check_kind_def stops_at_failure_skip)
  next
    case False
    let ?ep = "items_endpoint grp version plural"
    show ?thesis
    proof (cases "api_get_items e ?ep")
      case (Inl err)
      with False show ?thesis
        by (auto simp: t check_kind_def getAllResourcesInAPI_def intro!: stops_at_failure_call)
    next
      case (Inr p)
      obtain status items where p: "p = (status, items)" by (cases p)
      show ?thesis
      proof (cases "status = 200")
        case True
        have "stops_at_failure
           (then_run \<lparr>clock_reads = k, effects = [GetItems ?ep (Inr 200)], yielded = [], raised = None\<rparr>
              (for_each (check_resource e grp version plural kind namespaced) items))"
          by (intro stops_at_failure_then_run stops_at_failure_for_each
              stops_at_failure_check_resource stops_at_failure_call) simp
        with False Inr p True show ?thesis
          by (simp add: t check_kind_def getAllResourcesInAPI_def)
      next
        case f: False
        with False Inr p show ?thesis
          by (auto simp: t check_kind_def getAllResourcesInAPI_def intro!: stops_at_failure_call)
      qed
    qed
  qed
qed

lemma stops_at_failure_check_api: "stops_at_failure (check_api e gv k)"
proof -
  obtain grp version where gv: "gv = (grp, version)" by (cases gv)
  let ?ep = "kinds_endpoint grp version"
  show ?thesis
  proof (cases "api_get_kinds e ?ep")
    case (Inl err)
    then show ?thesis
      by (auto simp: gv check_api_def getAllResourceKindsInAPI_def intro!: stops_at_failure_call)
  next
    case (Inr p)
    obtain status resources where p: "p = (status, resources)" by (cases p)
    show ?thesis
    proof (cases "status = 200")
      case True
      have "stops_at_failure
         (then_run \<lparr>clock_reads = k, effects = [GetKinds ?ep (Inr 200)], yielded = [], raised = None\<rparr>
            (for_each (check_kind e grp version)
               (map (\<lambda>resource. (rk_name resource, rk_kind resource, rk_verbs resource,
                                   rk_namespaced resource)) resources)))"
        by (intro stops_at_failure_then_run stops_at_failure_for_each
            stops_at_failure_check_kind stops_at_failure_call) simp
      with Inr p True show ?thesis
        by (simp add: gv check_api_def getAllResourceKindsInAPI_def)
    next
      case False
      with Inr p show ?thesis
        by (auto simp: gv check_api_def getAllResourceKindsInAPI_def intro!: stops_at_failure_call)
    qed
  qed
qed

lemma stops_at_failure_sweep: "stops_at_failure (checkAllResources e k)"
proof -
  have rest: "stops_at_failure
      (case get_api_versions e of
         Inl err \<Rightarrow> \<lparr>clock_reads = k', effects = [GetGroups], yielded = [], raised = Some err\<rparr>
       | Inr groups \<Rightarrow>
           then_run \<lparr>clock_reads = k', effects = [GetGroups], yielded = [], raised = None\<rparr>
             (for_each (check_api e)
                (map (\<lambda>api. (api_name api, api_preferred_version api)) groups)))" for k'
  proof (cases "get_api_versions e")
    case (Inl err)
    then show ?thesis by (simp add: stops_at_failure_def)
  next
    case (Inr groups)
    have "stops_at_failure
       (then_run \<lparr>clock_reads = k', effects = [GetGroups], yielded = [], raised = None\<rparr>
             (for_each (check_api e)
                (map (\<lambda>api. (api_name api, api_preferred_version api)) groups)))"
      by (intro stops_at_failure_then_run stops_at_failure_for_each stops_at_failure_check_api)
         (simp add: stops_at_failure_def)
    with Inr show ?thesis by simp
  qed
  show ?thesis
    unfolding checkAllResources_unfold
    by (intro stops_at_failure_then_run stops_at_failure_check_api rest)
qed


lemma in_set_not_butlast: "x \<in> set xs \<Longrightarrow> x \<notin> set (butlast xs) \<Longrightarrow> last xs = x"
  by (induction xs) (auto split: if_splits)

lemma failed_call_ends_run:
  assumes "stops_at_failure r" and "ev \<in> set (effects r)" and "error_of ev = Some err"
  shows "raised r = Some err" and "last (effects r) = ev"
proof -
  from assms show "raised r = Some err" by (auto simp: stops_at_failure_def)
  from assms have "ev \<notin> set (butlast (effects r))" by (auto simp: stops_at_failure_def)
  with assms(2) show "last (effects r) = ev" by (rule in_set_not_butlast)
qed

lemma collect_raised: "raised (checkAllResources e k) = Some err \<Longrightarrow> collect e k = Inl err"
  by (simp add: collect_def Let_def)

text \<open>
  C5, as amended. A removal patch that is answered with a status other than 200 (or that
  makes the client raise) ends the run: the call is the last effect of the run, the run
  raises \<^verbatim>\<open>AssertionError\<close> (or the exception of the client), and the collection
  returns that exception and no gauge. The loop body, on a resource whose suspension has
  timed out and whose patch is answered with such a status, raises
  \<^verbatim>\<open>AssertionError\<close> right after the call and yields nothing.
\<close>

theorem patch_failure_aborts:
  "(Patch endpoint body (Inr status) \<in> set (effects (checkAllResources e k0)) \<and> status \<noteq> 200 \<longrightarrow>
      raised (checkAllResources e k0) = Some AssertionError
      \<and> last (effects (checkAllResources e k0)) = Patch endpoint body (Inr status)
      \<and> collect e k0 = Inl AssertionError)
   \<and> (Patch endpoint body (Inl err) \<in> set (effects (checkAllResources e k0)) \<longrightarrow>
      raised (checkAllResources e k0) = Some err
      \<and> last (effects (checkAllResources e k0)) = Patch endpoint body (Inl err)
      \<and> collect e k0 = Inl err)
   \<and> (get_annotations m RECONCILE_ANNOTATION = Some ''disabled''
       \<and> get_namespace namespaced m = Inr ns
       \<and> get_annotations m SUSPEND_UNTIL_ANNOTATION = Some timeout
       \<and> isoparse e timeout = Inr (Naive d) \<and> d < now e k
       \<and> api_patch e (patch_endpoint grp version plural ns (meta_name m))
            (patch_body (removeAnnotations (get_annotations m SUSPENDED_BY_ANNOTATION \<noteq> None)))
          = Inr status
       \<and> status \<noteq> 200 \<longrightarrow>
         raised (check_resource e grp version plural kind namespaced m k) = Some AssertionError
         \<and> yielded (check_resource e grp version plural kind namespaced m k) = []
         \<and> last (effects (check_resource e grp version plural kind namespaced m k))
             = Patch (patch_endpoint grp version plural ns (meta_name m))
                 (patch_body (removeAnnotations
                    (get_annotations m SUSPENDED_BY_ANNOTATION \<noteq> None)))
                 (Inr status))"
proof (intro conjI impI)
  assume a: "Patch endpoint body (Inr status) \<in> set (effects (checkAllResources e k0))
             \<and> status \<noteq> 200"
  then have err: "error_of (Patch endpoint body (Inr status)) = Some AssertionError" by simp
  from a have mem: "Patch endpoint body (Inr status) \<in> set (effects (checkAllResources e k0))"
    by simp
  note f = failed_call_ends_run [OF stops_at_failure_sweep mem err]
  show "raised (checkAllResources e k0) = Some AssertionError" by (rule f(1))
  show "last (effects (checkAllResources e k0)) = Patch endpoint body (Inr status)" by (rule f(2))
  show "collect e k0 = Inl AssertionError" using f(1) by (rule collect_raised)
next
  assume mem: "Patch endpoint body (Inl err) \<in> set (effects (checkAllResources e k0))"
  have err: "error_of (Patch endpoint body (Inl err)) = Some err" by simp
  note f = failed_call_ends_run [OF stops_at_failure_sweep mem err]
  show "raised (checkAllResources e k0) = Some err" by (rule f(1))
  show "last (effects (checkAllResources e k0)) = Patch endpoint body (Inl err)" by (rule f(2))
  show "collect e k0 = Inl err" using f(1) by (rule collect_raised)
next
  assume a: "get_annotations m RECONCILE_ANNOTATION = Some ''disabled''
       \<and> get_namespace namespaced m = Inr ns
       \<and> get_annotations m SUSPEND_UNTIL_ANNOTATION = Some timeout
       \<and> isoparse e timeout = Inr (Naive d) \<and> d < now e k
       \<and> api_patch e (patch_endpoint grp version plural ns (meta_name m))
            (patch_body (removeAnnotations (get_annotations m SUSPENDED_BY_ANNOTATION \<noteq> None)))
          = Inr status
       \<and> status \<noteq> 200"
  then have lt: "dt_less (Naive d) (Naive (now e k)) = Inr True" by simp
  note r = check_resource_timed_out [OF _ _ _ _ lt, of m namespaced ns timeout grp version plural kind]
  from a r show "raised (check_resource e grp version plural kind namespaced m k)
                 = Some AssertionError" by simp
  from a r show "yielded (check_resource e grp version plural kind namespaced m k) = []" by simp
  from a r show "last (effects (check_resource e grp version plural kind namespaced m k))
             = Patch (patch_endpoint grp version plural ns (meta_name m))
                 (patch_body (removeAnnotations
                    (get_annotations m SUSPENDED_BY_ANNOTATION \<noteq> None)))
                 (Inr status)" by simp
qed

text \<open>
  The claim as stated fails when the patch of a timed-out resource is answered with 500:
  the run stops there, the resource listed after it is never looked at, and nothing is
  reported, neither for the resource of the failed patch nor for any other.
\<close>

theorem patch_failure_aborts_counterexample:
  "(''apps'', ''v1'', ''helmreleases'', ''HelmRelease'', True, res_future)
     \<in> set (getAllResources (demo_env [res_expired, res_future] 500))
   \<and> checkAllResources (demo_env [res_expired, res_future] 500) 0
       = \<lparr>clock_reads = 1,
          effects =
            [GetKinds ''/api/v1'' (Inr 200), GetItems ''/api/v1/nodes'' (Inr 200),
             GetGroups, GetKinds ''/apis/apps/v1'' (Inr 200),
             GetItems ''/apis/apps/v1/helmreleases'' (Inr 200),
             Log Debug ''Resource apps/v1 apps/expired is suspended'',
             Log Info ''Removing suspend annotations from apps/v1 apps/expired'',
             Patch ''/apis/apps/v1/namespaces/apps/helmreleases/expired''
               [\<lparr>op = ''remove'',
                  path = ''/metadata/annotations/kustomize.toolkit.fluxcd.io~1reconcile''\<rparr>,
                \<lparr>op = ''remove'',
                  path = ''/metadata/annotations/flux.b2.genesiscloud.dev~1suspend-until''\<rparr>,
                \<lparr>op = ''remove'',
                  path = ''/metadata/annotations/flux.b2.genesiscloud.dev~1suspended-by''\<rparr>]
               (Inr 500)],
          yielded = [], raised = Some AssertionError\<rparr>
   \<and> collect (demo_env [res_expired, res_future] 500) 0 = Inl AssertionError"
  by (simp add: collect_def demo_defs listing_defs)

theorem patch_failure_aborts_witness:
  "Patch ''/apis/apps/v1/namespaces/apps/helmreleases/expired''
     (patch_body (removeAnnotations True)) (Inr 500)
     \<in> set (effects (checkAllResources (demo_env [res_expired, res_future] 500) 0))
   \<and> (500::int) \<noteq> 200
   \<and> raised (checkAllResources (demo_env [res_expired, res_future] 500) 0) = Some AssertionError
   \<and> last (effects (checkAllResources (demo_env [res_expired, res_future] 500) 0))
       = Patch ''/apis/apps/v1/namespaces/apps/helmreleases/expired''
           (patch_body (removeAnnotations True)) (Inr 500)
   \<and> collect (demo_env [res_expired, res_future] 500) 0 = Inl AssertionError"
proof -
  let ?e = "demo_env [res_expired, res_future] 500"
  let ?ev = "Patch ''/apis/apps/v1/namespaces/apps/helmreleases/expired''
     (patch_body (removeAnnotations True)) (Inr 500)"
  have mem: "?ev \<in> set (effects (checkAllResources ?e 0))"
    by (simp add: demo_defs)
  have ne: "(500::int) \<noteq> 200" by simp
  note T = patch_failure_aborts [where endpoint = "''/apis/apps/v1/namespaces/apps/helmreleases/expired''"
      and body = "patch_body (removeAnnotations True)" and status = 500 and e = ?e and ?k0.0 = 0]
  note A = T [THEN conjunct1, THEN mp, OF conjI [OF mem ne]]
  show ?thesis
    by (intro conjI mem ne A [THEN conjunct1] A [THEN conjunct2, THEN conjunct1]
        A [THEN conjunct2, THEN conjunct2])
qed

text \<open>
  C6, as amended. A listing call that is answered with a status other than 200 (or that
  makes the client raise) ends the run: the call is the last effect of the run, the run
  raises \<^verbatim>\<open>AssertionError\<close> (or the exception of the client), and the collection
  returns that exception and no gauge. One round of the loop over the kinds, for a kind
  that can be listed and whose listing is answered with such a status, is that call
  followed by \<^verbatim>\<open>AssertionError\<close>.
\<close>

theorem listing_failure_aborts:
  "(GetItems endpoint (Inr status) \<in> set (effects (checkAllResources e k0)) \<and> status \<noteq> 200 \<longrightarrow>
      raised (checkAllResources e k0) = Some AssertionError
      \<and> last (effects (checkAllResources e k0)) = GetItems endpoint (Inr status)
      \<and> collect e k0 = Inl AssertionError)
   \<and> (GetItems endpoint (Inl err) \<in> set (effects (checkAllResources e k0)) \<longrightarrow>
      raised (checkAllResources e k0) = Some err
      \<and> last (effects (checkAllResources e k0)) = GetItems endpoint (Inl err)
      \<and> collect e k0 = Inl err)
   \<and> (''list'' \<in> set verbs
       \<and> api_get_items e (items_endpoint grp version plural) = Inr (status, items)
       \<and> status \<noteq> 200 \<longrightarrow>
         check_kind e grp version (plural, kind, verbs, namespaced) k
           = \<lparr>clock_reads = k,
              effects = [GetItems (items_endpoint grp version plural) (Inr status)],
              yielded = [], raised = Some AssertionError\<rparr>)"
proof (intro conjI impI)
  assume a: "GetItems endpoint (Inr status) \<in> set (effects (checkAllResources e k0))
             \<and> status \<noteq> 200"
  then have err: "error_of (GetItems endpoint (Inr status)) = Some AssertionError" by simp
  from a have mem: "GetItems endpoint (Inr status) \<in> set (effects (checkAllResources e k0))"
    by simp
  note f = failed_call_ends_run [OF stops_at_failure_sweep mem err]
  show "raised (checkAllResources e k0) = Some AssertionError" by (rule f(1))
  show "last (effects (checkAllResources e k0)) = GetItems endpoint (Inr status)" by (rule f(2))
  show "collect e k0 = Inl AssertionError" using f(1) by (rule collect_raised)
next
  assume mem: "GetItems endpoint (Inl err) \<in> set (effects (checkAllResources e k0))"
  have err: "error_of (GetItems endpoint (Inl err)) = Some err" by simp
  note f = failed_call_ends_run [OF stops_at_failure_sweep mem err]
  show "raised (checkAllResources e k0) = Some err" by (rule f(1))
  show "last (effects (checkAllResources e k0)) = GetItems endpoint (Inl err)" by (rule f(2))
  show "collect e k0 = Inl err" using f(1) by (rule collect_raised)
next
  assume a: "''list'' \<in> set verbs
       \<and> api_get_items e (items_endpoint grp version plural) = Inr (status, items)
       \<and> status \<noteq> 200"
  then have "verbs \<noteq> []" by auto
  with a show "check_kind e grp version (plural, kind, verbs, namespaced) k
           = \<lparr>clock_reads = k,
              effects = [GetItems (items_endpoint grp version plural) (Inr status)],
              yielded = [], raised = Some AssertionError\<rparr>"
    by (simp add: check_kind_def getAllResourcesInAPI_def)
qed

text \<open>
  The claim as stated fails when the listing of the nodes is answered with 500: the run
  stops after two calls, and the group \<^verbatim>\<open>apps\<close>, whose listing would have returned a
  suspended resource, is never asked for.
\<close>

theorem listing_failure_aborts_counterexample:
  "api_get_items (demo_env_nodes_down [res_indefinite]) ''/apis/apps/v1/helmreleases''
     = Inr (200, [res_indefinite])
   \<and> get_annotations res_indefinite RECONCILE_ANNOTATION = Some ''disabled''
   \<and> checkAllResources (demo_env_nodes_down [res_indefinite]) 0
       = \<lparr>clock_reads = 0,
          effects = [GetKinds ''/api/v1'' (Inr 200), GetItems ''/api/v1/nodes'' (Inr 500)],
          yielded = [], raised = Some AssertionError\<rparr>
   \<and> collect (demo_env_nodes_down [res_indefinite]) 0 = Inl AssertionError"
  by (simp add: collect_def demo_defs)

theorem listing_failure_aborts_witness:
  "GetItems ''/api/v1/nodes'' (Inr 500)
     \<in> set (effects (checkAllResources (demo_env_nodes_down [res_indefinite]) 0))
   \<and> (500::int) \<noteq> 200
   \<and> raised (checkAllResources (demo_env_nodes_down [res_indefinite]) 0) = Some AssertionError
   \<and> last (effects (checkAllResources (demo_env_nodes_down [res_indefinite]) 0))
       = GetItems ''/api/v1/nodes'' (Inr 500)
   \<and> collect (demo_env_nodes_down [res_indefinite]) 0 = Inl AssertionError"
proof -
  let ?e = "demo_env_nodes_down [res_indefinite]"
  have mem: "GetItems ''/api/v1/nodes'' (Inr 500) \<in> set (effects (checkAllResources ?e 0))"
    by (simp add: demo_defs)
  have ne: "(500::int) \<noteq> 200" by simp
  note T = listing_failure_aborts [where endpoint = "''/api/v1/nodes''" and status = 500
      and e = ?e and ?k0.0 = 0]
  note A = T [THEN conjunct1, THEN mp, OF conjI [OF mem ne]]
  show ?thesis
    by (intro conjI mem ne A [THEN conjunct1] A [THEN conjunct2, THEN conjunct1]
        A [THEN conjunct2, THEN conjunct2])
qed

section \<open>The order of enumeration\<close>
















section \<open>Two sweeps in succession\<close>







lemma after_sweep_sel [simp]:
  "get_api_versions (after_sweep e k0) = get_api_versions e"
  "api_get_kinds (after_sweep e k0) = api_get_kinds e"
  "api_patch (after_sweep e k0) = api_patch e"
  "isoparse (after_sweep e k0) = isoparse e"
  "now (after_sweep e k0) = now e"
  by (simp_all add: after_sweep_def)

lemma unsuspend_sel [simp]:
  "get_annotations (unsuspend m) RECONCILE_ANNOTATION = None"
  "get_namespace namespaced (unsuspend m) = get_namespace namespaced m"
  "meta_name (unsuspend m) = meta_name m"
  by (simp_all add: unsuspend_def get_annotations_def get_namespace_def)

















end
